theory Spec2Isabelle
  imports Main
begin

section \<open>Data model of the content script (extension/dist_v2/content.js)\<close>

text \<open>
  A string is the list of its code units; \<open>length\<close> is JavaScript's \<open>.length\<close>.
  A suggestion carries the wire fields the content script reads.
\<close>

record suggestion =
  sug_type :: string
  original :: string
  suggested :: string
  explanation :: string

text \<open>
  The parsed response body of the analysis endpoint. The metrics block is kept as the
  text rendered into the metrics panel; the rounding of the scores is not modelled.
\<close>

record analysis_result =
  r_suggestions :: "suggestion list"
  r_optimized_prompt :: string
  r_metrics :: "string option"

text \<open>
  A DOM element as the script sees it. \<open>el_value\<close> is the \<open>.value\<close> property:
  \<open>None\<close> stands for \<open>undefined\<close>, as on a contenteditable element that was never
  assigned one. \<open>attached\<close> is \<open>document.body.contains(element)\<close>. \<open>listeners\<close> counts
  the input/focus listener pairs that \<open>findAndMonitorTextarea\<close> registered on the
  element, \<open>input_events\<close> the synthetic input events the script dispatched on it.
\<close>

record element =
  el_value :: "string option"
  textContent :: string
  attached :: bool
  listeners :: nat
  input_events :: nat

text \<open>The argument of \<open>updateMartinButton\<close>, which is also the class the button ends up with.\<close>

datatype button_state = Default | Analyzing | HasSuggestions | Optimized

text \<open>
  Pending timers. \<open>Later text\<close> is the closure \<open>later\<close> of \<open>debounce\<close> holding the
  arguments of its invocation; \<open>ResetButton\<close> is the closure of \<open>acceptAllSuggestions\<close>.
\<close>

datatype task = Later string | ResetButton

record timer =
  tid :: nat
  due :: nat
  task :: task

datatype js_error = TypeError

text \<open>
  The module-level variables (\<open>currentTextarea\<close>, \<open>suggestions\<close>, \<open>isAnalyzing\<close>,
  \<open>optimizedPrompt\<close>, \<open>retryCount\<close>), the variable \<open>timeout\<close> captured by the debounced
  function, whether a call of \<open>initializeMonitoring\<close> is scheduled (\<open>startup_scheduled\<close>), the
  parts of the page the script writes (button class, badge, suggestion card, metrics
  panel), the clock and timer queue of the event loop, and the network: \<open>outstanding\<close>
  holds the prompts of the requests that have not settled, \<open>sent\<close> every prompt ever
  sent.
\<close>

record state =
  currentTextarea :: "element option"
  suggestions :: "suggestion list"
  isAnalyzing :: bool
  optimizedPrompt :: string
  retryCount :: nat
  startup_scheduled :: bool
  timeout :: "nat option"
  button :: button_state
  badge_show :: bool
  badge_text :: nat
  card_open :: bool
  card_list :: "suggestion list"
  metricsDiv :: string
  now :: nat
  timers :: "timer list"
  next_id :: nat
  outstanding :: "string list"
  sent :: "string list"

definition DEBOUNCE_DELAY :: nat where
  "DEBOUNCE_DELAY = 500"

definition maxRetries :: nat where
  "maxRetries = 20"

text \<open>
  The state when the script has been loaded: the first call of \<open>initializeMonitoring\<close>
  is scheduled (on \<open>DOMContentLoaded\<close>, or by the 1000 ms timer when the document was
  already loaded).
\<close>

definition init :: state where
  "init = \<lparr> currentTextarea = None, suggestions = [], isAnalyzing = False,
            optimizedPrompt = [], retryCount = 0, startup_scheduled = True,
            timeout = None, button = Default,
            badge_show = False, badge_text = 0, card_open = False, card_list = [],
            metricsDiv = [], now = 0, timers = [], next_id = 0,
            outstanding = [], sent = [] \<rparr>"

section \<open>Timers\<close>

definition setTimeout :: "task \<Rightarrow> nat \<Rightarrow> state \<Rightarrow> nat \<times> state" where
  "setTimeout k wait s =
     (next_id s,
      s\<lparr> timers := timers s @ [\<lparr> tid = next_id s, due = now s + wait, task = k \<rparr>],
         next_id := Suc (next_id s) \<rparr>)"

text \<open>\<open>clearTimeout\<close> of \<open>undefined\<close> or of a timer that already ran does nothing.\<close>

definition clearTimeout :: "nat option \<Rightarrow> state \<Rightarrow> state" where
  "clearTimeout i s = s\<lparr> timers := filter (\<lambda>t. Some (tid t) \<noteq> i) (timers s) \<rparr>"

section \<open>UI update functions\<close>

fun updateMartinButton :: "button_state \<Rightarrow> state \<Rightarrow> state" where
  "updateMartinButton Analyzing s = s\<lparr> button := Analyzing, badge_show := False \<rparr>"
| "updateMartinButton HasSuggestions s =
     s\<lparr> button := HasSuggestions, badge_text := length (suggestions s), badge_show := True \<rparr>"
| "updateMartinButton Optimized s = s\<lparr> button := Optimized, badge_show := False \<rparr>"
| "updateMartinButton Default s = s\<lparr> button := Default, badge_show := False \<rparr>"

text \<open>The card lists the current suggestions (an empty list renders the placeholder line).\<close>

definition showSuggestions :: "state \<Rightarrow> state" where
  "showSuggestions s = s\<lparr> card_list := suggestions s, card_open := True \<rparr>"

definition closeMartinCard :: "state \<Rightarrow> state" where
  "closeMartinCard s = s\<lparr> card_open := False \<rparr>"

section \<open>The analysis call\<close>

text \<open>
  What an async call hands back to the \<open>await\<close> of its caller: \<open>Resolved v\<close> when it
  returned \<open>v\<close> without waiting for anything, \<open>Pending\<close> when it waits for the network;
  the value then comes with the response.
\<close>

datatype 'a promise = Resolved 'a | Pending

text \<open>
  \<open>analyzePrompt\<close> returns \<open>null\<close> (\<open>None\<close>) at once for a short text and otherwise
  sends the request. \<open>analyzeText_body\<close> is the async function wrapped by
  \<open>debounce\<close>, up to its \<open>await\<close> and, when \<open>analyzePrompt\<close> has already returned,
  beyond it. \<open>analyzeText_resume\<close> is the rest of the function after the \<open>await\<close>;
  its argument is what \<open>analyzePrompt\<close> returned (\<open>None\<close> is \<open>null\<close>: a short text, a
  network error, a status that is not ok, a body that does not parse).
\<close>

definition analyzeText_resume :: "analysis_result option \<Rightarrow> state \<Rightarrow> state" where
  "analyzeText_resume result s =
     (case result of
        Some r \<Rightarrow>
          let s1 = s\<lparr> suggestions := r_suggestions r, optimizedPrompt := r_optimized_prompt r \<rparr>;
              s2 = (case r_metrics r of Some m \<Rightarrow> s1\<lparr> metricsDiv := m \<rparr> | None \<Rightarrow> s1);
              s3 = updateMartinButton
                     (if length (suggestions s2) > 0 then HasSuggestions else Optimized) s2
          in s3\<lparr> isAnalyzing := False \<rparr>
      | None \<Rightarrow> (updateMartinButton Default s)\<lparr> isAnalyzing := False \<rparr>)"

definition analyzePrompt :: "string \<Rightarrow> state \<Rightarrow> analysis_result option promise \<times> state" where
  "analyzePrompt text s =
     (if text = [] \<or> length text < 10 then (Resolved None, s)
      else (Pending, s\<lparr> outstanding := outstanding s @ [text], sent := sent s @ [text] \<rparr>))"

definition analyzeText_body :: "string \<Rightarrow> state \<Rightarrow> state" where
  "analyzeText_body text s =
     (if isAnalyzing s \<or> text = [] \<or> length text < 10 then s
      else (case analyzePrompt text (updateMartinButton Analyzing (s\<lparr> isAnalyzing := True \<rparr>)) of
              (Resolved result, s') \<Rightarrow> analyzeText_resume result s'
            | (Pending, s') \<Rightarrow> s'))"

text \<open>The oldest outstanding request settles with \<open>result\<close>.\<close>

definition response :: "analysis_result option \<Rightarrow> state \<Rightarrow> state" where
  "response result s =
     (case outstanding s of
        [] \<Rightarrow> s
      | _ # rest \<Rightarrow> analyzeText_resume result (s\<lparr> outstanding := rest \<rparr>))"

section \<open>Debounce\<close>

text \<open>\<open>analyzeText\<close> is \<open>executedFunction\<close> of \<open>debounce(..., DEBOUNCE_DELAY)\<close>.\<close>

definition analyzeText :: "string \<Rightarrow> state \<Rightarrow> state" where
  "analyzeText text s =
     (let s1 = clearTimeout (timeout s) s;
          (i, s2) = setTimeout (Later text) DEBOUNCE_DELAY s1
      in s2\<lparr> timeout := Some i \<rparr>)"

definition later :: "string \<Rightarrow> state \<Rightarrow> state" where
  "later text s = analyzeText_body text (clearTimeout (timeout s) s)"

section \<open>String.prototype.replace with a string pattern\<close>

text \<open>\<open>indexOf pat txt\<close> is the position of the first occurrence of \<open>pat\<close> in \<open>txt\<close>.\<close>

fun indexOf :: "string \<Rightarrow> string \<Rightarrow> nat option" where
  "indexOf pat [] = (if pat = [] then Some 0 else None)"
| "indexOf pat (c # cs) =
     (if take (length pat) (c # cs) = pat then Some 0
      else map_option Suc (indexOf pat cs))"

text \<open>
  The replacement string is not taken literally: \<open>$$\<close> stands for a dollar sign,
  \<open>$&\<close> for the matched text, \<open>$`\<close> and \<open>$'\<close> for the text before and after the
  match. A string pattern has no capture groups, so every other \<open>$\<close> stays as it is.
\<close>

fun getSubstitution :: "string \<Rightarrow> string \<Rightarrow> string \<Rightarrow> string \<Rightarrow> string" where
  "getSubstitution matched pre post [] = []"
| "getSubstitution matched pre post [c] = [c]"
| "getSubstitution matched pre post (c # d # rest) =
     (if c = CHR ''$'' then
        (if d = CHR ''$'' then CHR ''$'' # getSubstitution matched pre post rest
         else if d = CHR ''&'' then matched @ getSubstitution matched pre post rest
         else if d = CHR 0x60 then pre @ getSubstitution matched pre post rest
         else if d = CHR 0x27 then post @ getSubstitution matched pre post rest
         else c # getSubstitution matched pre post (d # rest))
      else c # getSubstitution matched pre post (d # rest))"

definition js_replace :: "string \<Rightarrow> string \<Rightarrow> string \<Rightarrow> string" where
  "js_replace txt pat rep =
     (case indexOf pat txt of
        None \<Rightarrow> txt
      | Some i \<Rightarrow>
          take i txt
          @ getSubstitution pat (take i txt) (drop (i + length pat) txt) rep
          @ drop (i + length pat) txt)"

section \<open>Listeners of the monitored element\<close>

text \<open>\<open>element.value || element.textContent\<close>: an empty or missing value falls through.\<close>

definition element_text :: "element \<Rightarrow> string" where
  "element_text e =
     (case el_value e of
        Some v \<Rightarrow> if v \<noteq> [] then v else textContent e
      | None \<Rightarrow> textContent e)"

definition input_listener :: "element \<Rightarrow> state \<Rightarrow> state" where
  "input_listener e s = analyzeText (element_text e) s"

definition focus_listener :: "element \<Rightarrow> state \<Rightarrow> state" where
  "focus_listener e s =
     (let text = element_text e
      in if text \<noteq> [] \<and> length text > 10 then analyzeText text s else s)"

text \<open>
  \<open>currentTextarea.dispatchEvent(new Event('input', ...))\<close> on the element that
  \<open>currentTextarea\<close> refers to: the event is counted on the element and every input
  listener registered on it runs.
\<close>

definition dispatch_input :: "state \<Rightarrow> state" where
  "dispatch_input s =
     (case currentTextarea s of
        None \<Rightarrow> s
      | Some e \<Rightarrow>
          ((input_listener e) ^^ (listeners e))
            (s\<lparr> currentTextarea := Some (e\<lparr> input_events := Suc (input_events e) \<rparr>) \<rparr>))"

section \<open>Event handlers\<close>

text \<open>
  \<open>suggestions[index]\<close> is \<open>undefined\<close> out of range and the handler then does
  nothing. Reading \<open>.replace\<close> of an undefined \<open>.value\<close> throws before anything is
  changed.
\<close>

definition applySuggestion :: "nat \<Rightarrow> state \<Rightarrow> js_error + state" where
  "applySuggestion index s =
     (case (currentTextarea s,
            if index < length (suggestions s) then Some (suggestions s ! index) else None) of
        (Some e, Some suggestion) \<Rightarrow>
          (case el_value e of
             None \<Rightarrow> Inl TypeError
           | Some text \<Rightarrow>
               let text' = js_replace text (original suggestion) (suggested suggestion);
                   s1 = s\<lparr> currentTextarea := Some (e\<lparr> el_value := Some text' \<rparr>) \<rparr>;
                   s2 = dispatch_input s1;
                   s3 = s2\<lparr> suggestions :=
                              take index (suggestions s2) @ drop (Suc index) (suggestions s2) \<rparr>;
                   s4 = updateMartinButton
                          (if length (suggestions s3) > 0 then HasSuggestions else Default) s3
               in Inr (if length (suggestions s4) > 0 then showSuggestions s4
                       else closeMartinCard s4))
      | _ \<Rightarrow> Inr s)"

definition acceptAllSuggestions :: "state \<Rightarrow> state" where
  "acceptAllSuggestions s =
     (case currentTextarea s of
        Some e \<Rightarrow>
          if optimizedPrompt s \<noteq> [] then
            let s1 = s\<lparr> currentTextarea := Some (e\<lparr> el_value := Some (optimizedPrompt s) \<rparr>) \<rparr>;
                s2 = dispatch_input s1;
                s3 = closeMartinCard s2;
                s4 = updateMartinButton Optimized s3
            in snd (setTimeout ResetButton 2000 s4)
          else s
      | None \<Rightarrow> s)"

definition button_click :: "state \<Rightarrow> state" where
  "button_click s =
     (if length (suggestions s) > 0 \<or> optimizedPrompt s \<noteq> [] then showSuggestions s
      else (case currentTextarea s of
              Some e \<Rightarrow>
                let text = element_text e
                in if text \<noteq> [] \<and> length text > 10 then analyzeText text s else s
            | None \<Rightarrow> s))"

section \<open>Finding the element to monitor\<close>

definition selectors :: "string list" where
  \<open>selectors =
     [''textarea[placeholder*="Send a message"]'',
      ''textarea[placeholder*="Talk to Claude"]'',
      ''textarea[placeholder*="Enter a prompt"]'',
      ''textarea[placeholder*="Type a message"]'',
      ''textarea[data-id="root"]'',
      ''[contenteditable="true"]'',
      ''textarea'']\<close>

text \<open>
  The document is what \<open>document.querySelector\<close> answers for each selector. The first
  selector with an answer wins; the element becomes \<open>currentTextarea\<close> and gets one
  more pair of listeners. When no selector answers, \<open>currentTextarea\<close> keeps its value.
\<close>

fun first_element :: "(string \<Rightarrow> element option) \<Rightarrow> string list \<Rightarrow> element option" where
  "first_element querySelector [] = None"
| "first_element querySelector (sel # sels) =
     (case querySelector sel of
        Some e \<Rightarrow> Some e
      | None \<Rightarrow> first_element querySelector sels)"

definition findAndMonitorTextarea :: "(string \<Rightarrow> element option) \<Rightarrow> state \<Rightarrow> bool \<times> state" where
  "findAndMonitorTextarea querySelector s =
     (case first_element querySelector selectors of
        Some e \<Rightarrow> (True, s\<lparr> currentTextarea := Some (e\<lparr> listeners := Suc (listeners e) \<rparr>) \<rparr>)
      | None \<Rightarrow> (False, s))"

text \<open>The callback of the \<open>MutationObserver\<close>.\<close>

definition observer_callback :: "(string \<Rightarrow> element option) \<Rightarrow> state \<Rightarrow> state" where
  "observer_callback querySelector s =
     (case currentTextarea s of
        None \<Rightarrow> snd (findAndMonitorTextarea querySelector s)
      | Some e \<Rightarrow>
          if \<not> attached e then snd (findAndMonitorTextarea querySelector s) else s)"

text \<open>
  \<open>initializeMonitoring\<close>, run against the document of the moment. It looks for the
  element without asking whether one is monitored already, and when none is found it
  schedules itself again, at most \<open>maxRetries\<close> times.
\<close>

definition initializeMonitoring :: "(string \<Rightarrow> element option) \<Rightarrow> state \<Rightarrow> state" where
  "initializeMonitoring querySelector s =
     (case findAndMonitorTextarea querySelector s of
        (True, s') \<Rightarrow> s'
      | (False, s') \<Rightarrow>
          if retryCount s' < maxRetries
          then s'\<lparr> retryCount := Suc (retryCount s'), startup_scheduled := True \<rparr>
          else s')"

section \<open>The event loop\<close>

fun run_task :: "task \<Rightarrow> state \<Rightarrow> state" where
  "run_task (Later text) s = later text s"
| "run_task ResetButton s = updateMartinButton Default s"

text \<open>Of the timers given, the one that is due first; of two due together, the older.\<close>

fun earliest :: "timer list \<Rightarrow> timer option" where
  "earliest [] = None"
| "earliest (t # ts) =
     (case earliest ts of
        None \<Rightarrow> Some t
      | Some u \<Rightarrow> if due u < due t then Some u else Some t)"

definition next_timer :: "nat \<Rightarrow> state \<Rightarrow> timer option" where
  "next_timer limit s = earliest (filter (\<lambda>t. due t \<le> limit) (timers s))"

definition fire :: "timer \<Rightarrow> state \<Rightarrow> state" where
  "fire t s =
     run_task (task t)
       (s\<lparr> now := max (now s) (due t),
           timers := filter (\<lambda>u. tid u \<noteq> tid t) (timers s) \<rparr>)"

lemma earliest_mem: "earliest ts = Some t \<Longrightarrow> t \<in> set ts"
  by (induction ts arbitrary: t) (auto split: option.splits if_splits)

lemma next_timer_mem: "next_timer limit s = Some t \<Longrightarrow> t \<in> set (timers s)"
  unfolding next_timer_def by (drule earliest_mem) simp

lemma timers_updateMartinButton [simp]: "timers (updateMartinButton b s) = timers s"
  by (cases b) simp_all

lemma timers_analyzeText_resume [simp]: "timers (analyzeText_resume r s) = timers s"
  by (simp add: analyzeText_resume_def Let_def split: option.splits)

lemma timers_analyzeText_body [simp]: "timers (analyzeText_body text s) = timers s"
  by (simp add: analyzeText_body_def analyzePrompt_def)

lemma length_timers_run_task: "length (timers (run_task k s)) \<le> length (timers s)"
  by (cases k) (simp_all add: later_def clearTimeout_def)

lemma length_timers_fire:
  assumes "t \<in> set (timers s)"
  shows "length (timers (fire t s)) < length (timers s)"
proof -
  have "length (filter (\<lambda>u. tid u \<noteq> tid t) (timers s)) < length (timers s)"
    using assms by (intro length_filter_less[of t]) simp_all
  moreover have "length (timers (fire t s))
      \<le> length (filter (\<lambda>u. tid u \<noteq> tid t) (timers s))"
    using length_timers_run_task[of "task t"
        "s\<lparr> now := max (now s) (due t), timers := filter (\<lambda>u. tid u \<noteq> tid t) (timers s) \<rparr>"]
    by (simp add: fire_def)
  ultimately show ?thesis by simp
qed

text \<open>
  Time passes up to \<open>limit\<close>: the timers due by then run in the order they fall due.
  No task sets a timer, so each round leaves fewer timers.
\<close>

function run_timers :: "nat \<Rightarrow> state \<Rightarrow> state" where
  "run_timers limit s =
     (case next_timer limit s of
        None \<Rightarrow> s\<lparr> now := max (now s) limit \<rparr>
      | Some t \<Rightarrow> run_timers limit (fire t s))"
  by pat_completeness auto
termination
  by (relation "measure (\<lambda>(limit, s). length (timers s))")
     (auto dest: next_timer_mem intro: length_timers_fire)

definition advance :: "nat \<Rightarrow> state \<Rightarrow> state" where
  "advance d s = run_timers (now s + d) s"

text \<open>
  What can happen to the page:
  the user edits the monitored element (its input listeners run), focuses it, clicks
  the button, clicks a suggestion or Accept All; the host page detaches the monitored
  element; the document changes and the observer runs against the new document; the
  scheduled call of \<open>initializeMonitoring\<close> runs; time passes; the outstanding request
  settles.

  The tasks in the timer queue are those that need nothing but the state. The task of
  the start-up timer reads the document, which comes from outside, so each of its runs
  is the event \<open>Initialize\<close> with the document of that moment, and the event is free
  to happen at any time while a call is scheduled.
\<close>

datatype event =
    UserInput string
  | Focus
  | Click
  | Apply nat
  | AcceptAll
  | Detach
  | Mutation "string \<Rightarrow> element option"
  | Initialize "string \<Rightarrow> element option"
  | Advance nat
  | Response "analysis_result option"

definition user_input :: "string \<Rightarrow> state \<Rightarrow> state" where
  "user_input text s =
     (case currentTextarea s of
        None \<Rightarrow> s
      | Some e \<Rightarrow>
          let e' = (case el_value e of
                      Some _ \<Rightarrow> e\<lparr> el_value := Some text \<rparr>
                    | None \<Rightarrow> e\<lparr> textContent := text \<rparr>)
          in ((input_listener e') ^^ (listeners e')) (s\<lparr> currentTextarea := Some e' \<rparr>))"

definition user_focus :: "state \<Rightarrow> state" where
  "user_focus s =
     (case currentTextarea s of
        None \<Rightarrow> s
      | Some e \<Rightarrow> ((focus_listener e) ^^ (listeners e)) s)"

definition detach :: "state \<Rightarrow> state" where
  "detach s =
     (case currentTextarea s of
        None \<Rightarrow> s
      | Some e \<Rightarrow> s\<lparr> currentTextarea := Some (e\<lparr> attached := False \<rparr>) \<rparr>)"

text \<open>An exception thrown by a handler leaves the state as the handler found it.\<close>

fun step :: "event \<Rightarrow> state \<Rightarrow> state" where
  "step (UserInput text) s = user_input text s"
| "step Focus s = user_focus s"
| "step Click s = button_click s"
| "step (Apply i) s = (case applySuggestion i s of Inl _ \<Rightarrow> s | Inr s' \<Rightarrow> s')"
| "step AcceptAll s = acceptAllSuggestions s"
| "step Detach s = detach s"
| "step (Mutation querySelector) s = observer_callback querySelector s"
| "step (Initialize querySelector) s =
     (if startup_scheduled s
      then initializeMonitoring querySelector (s\<lparr> startup_scheduled := False \<rparr>)
      else s)"
| "step (Advance d) s = advance d s"
| "step (Response r) s = response r s"

fun run :: "event list \<Rightarrow> state \<Rightarrow> state" where
  "run [] s = s"
| "run (ev # evs) s = run evs (step ev s)"

section \<open>Invariants and frames\<close>

text \<open>
  \<open>timers_only s s'\<close>: nothing but the timer queue, the counter of timer identifiers
  and the variable \<open>timeout\<close> differs.
\<close>

definition timers_only :: "state \<Rightarrow> state \<Rightarrow> bool" where
  "timers_only s s' \<longleftrightarrow>
     currentTextarea s' = currentTextarea s \<and> suggestions s' = suggestions s \<and>
     isAnalyzing s' = isAnalyzing s \<and> optimizedPrompt s' = optimizedPrompt s \<and>
     retryCount s' = retryCount s \<and> startup_scheduled s' = startup_scheduled s \<and>
     button s' = button s \<and> badge_show s' = badge_show s \<and> badge_text s' = badge_text s \<and>
     card_open s' = card_open s \<and> card_list s' = card_list s \<and>
     metricsDiv s' = metricsDiv s \<and> now s' = now s \<and>
     outstanding s' = outstanding s \<and> sent s' = sent s"

fun is_later :: "task \<Rightarrow> bool" where
  "is_later (Later text) = True"
| "is_later ResetButton = False"

text \<open>The pending timers of the debounced function.\<close>

definition laters :: "state \<Rightarrow> timer list" where
  "laters s = filter (\<lambda>t. is_later (task t)) (timers s)"

text \<open>
  The timer queue is well formed: identifiers are unique and were all handed out, a
  pending \<open>later\<close> is the one the variable \<open>timeout\<close> names, and \<open>timeout\<close> holds
  an identifier that was handed out.
\<close>

definition timers_ok :: "state \<Rightarrow> bool" where
  "timers_ok s \<longleftrightarrow>
     distinct (map tid (timers s))
     \<and> (\<forall>t \<in> set (timers s). tid t < next_id s)
     \<and> (\<forall>t \<in> set (timers s). is_later (task t) \<longrightarrow> timeout s = Some (tid t))
     \<and> (\<forall>i. timeout s = Some i \<longrightarrow> i < next_id s)"

text \<open>A request is outstanding exactly while \<open>isAnalyzing\<close> is set, and then only one.\<close>

definition network_ok :: "state \<Rightarrow> bool" where
  "network_ok s \<longleftrightarrow> length (outstanding s) = (if isAnalyzing s then 1 else 0)"

text \<open>No pending \<open>later\<close> falls due by \<open>limit\<close>.\<close>

definition quiet :: "nat \<Rightarrow> state \<Rightarrow> bool" where
  "quiet limit s \<longleftrightarrow> (\<forall>t \<in> set (laters s). limit < due t)"

text \<open>
  \<open>resets_only s s'\<close>: what running button resets can change is the button, the
  visibility of the badge, the clock and the queue of resets; the rest is the same.
\<close>

definition resets_only :: "state \<Rightarrow> state \<Rightarrow> bool" where
  "resets_only s s' \<longleftrightarrow>
     currentTextarea s' = currentTextarea s \<and> suggestions s' = suggestions s \<and>
     isAnalyzing s' = isAnalyzing s \<and> optimizedPrompt s' = optimizedPrompt s \<and>
     retryCount s' = retryCount s \<and> startup_scheduled s' = startup_scheduled s \<and>
     badge_text s' = badge_text s \<and>
     card_open s' = card_open s \<and> card_list s' = card_list s \<and>
     metricsDiv s' = metricsDiv s \<and>
     outstanding s' = outstanding s \<and> sent s' = sent s \<and>
     timeout s' = timeout s \<and> next_id s' = next_id s \<and> laters s' = laters s"

text \<open>
  \<open>pending text s\<close>: the debounced function was just invoked with \<open>text\<close>; its
  timer, set at the present time, is the only pending \<open>later\<close>.
\<close>

definition pending :: "string \<Rightarrow> state \<Rightarrow> bool" where
  "pending text s \<longleftrightarrow>
     timers_ok s \<and> (\<exists>i. laters s = [\<lparr> tid = i, due = now s + DEBOUNCE_DELAY, task = Later text \<rparr>])"

text \<open>
  A burst of invocations of the debounced function: before each one, \<open>gap\<close>
  milliseconds pass.
\<close>

fun burst :: "(nat \<times> string) list \<Rightarrow> state \<Rightarrow> state" where
  "burst [] s = s"
| "burst ((gap, text) # rest) s = burst rest (analyzeText text (advance gap s))"

text \<open>What the script shows: button class, badge, suggestion card, metrics panel.\<close>

definition ui :: "state \<Rightarrow> button_state \<times> bool \<times> nat \<times> bool \<times> suggestion list \<times> string" where
  "ui s = (button s, badge_show s, badge_text s, card_open s, card_list s, metricsDiv s)"

section \<open>Sample data\<close>

definition sug_vague :: suggestion where
  "sug_vague = \<lparr> sug_type = ''clarity'', original = ''fix'', suggested = ''debug'',
                 explanation = ''name the task'' \<rparr>"

definition sug_polite :: suggestion where
  "sug_polite = \<lparr> sug_type = ''token_optimization'', original = '' please'', suggested = [],
                  explanation = ''drop filler'' \<rparr>"

definition textarea :: "string \<Rightarrow> element" where
  "textarea v = \<lparr> el_value = Some v, textContent = [], attached = True, listeners = 1,
                  input_events = 0 \<rparr>"

definition armed :: state where
  "armed = init\<lparr> currentTextarea := Some (textarea ''fix my code please''),
                 suggestions := [sug_vague, sug_polite],
                 optimizedPrompt := ''debug my code'',
                 button := HasSuggestions, badge_show := True, badge_text := 2 \<rparr>"

text \<open>A document whose only input is a textarea that already holds a prompt.\<close>

definition page :: "string \<Rightarrow> element option" where
  "page sel = (if sel = ''textarea''
               then Some \<lparr> el_value = Some ''fix my code please'', textContent = [],
                           attached = True, listeners = 0, input_events = 0 \<rparr>
               else None)"

definition no_suggestions :: analysis_result where
  "no_suggestions = \<lparr> r_suggestions = [], r_optimized_prompt = ''fix my code please'',
                       r_metrics = None \<rparr>"

definition two_suggestions :: analysis_result where
  "two_suggestions = \<lparr> r_suggestions = [sug_vague, sug_polite],
                        r_optimized_prompt = ''debug my code'', r_metrics = None \<rparr>"

text \<open>The same document with a prompt of exactly ten characters.\<close>

definition page10 :: "string \<Rightarrow> element option" where
  "page10 sel = (if sel = ''textarea''
                 then Some \<lparr> el_value = Some ''fix my bug'', textContent = [],
                             attached = True, listeners = 0, input_events = 0 \<rparr>
                 else None)"

text \<open>The user has rewritten the prompt since the analysis.\<close>

definition edited :: state where
  "edited = armed\<lparr> currentTextarea := Some (textarea ''write a parser'') \<rparr>"

text \<open>The host page has removed the monitored element and put nothing in its place.\<close>

definition stale :: state where
  "stale = armed\<lparr> currentTextarea := Some ((textarea ''fix my code please'')\<lparr> attached := False \<rparr>) \<rparr>"

text \<open>
  A document whose only input is a contenteditable element; such an element has no
  \<open>.value\<close>, its text is its text content.
\<close>

definition ce_page :: "string \<Rightarrow> element option" where
  \<open>ce_page sel = (if sel = ''[contenteditable="true"]''
                  then Some \<lparr> el_value = None, textContent = ''fix my code please'',
                              attached = True, listeners = 0, input_events = 0 \<rparr>
                  else None)\<close>

definition editable :: "string \<Rightarrow> element" where
  "editable v = \<lparr> el_value = None, textContent = v, attached = True, listeners = 1,
                  input_events = 0 \<rparr>"

section \<open>Lemmas\<close>

lemma timers_only_refl: "timers_only s s"
  by (simp add: timers_only_def)

lemma timers_only_trans: "timers_only s s' \<Longrightarrow> timers_only s' s'' \<Longrightarrow> timers_only s s''"
  by (simp add: timers_only_def)

lemma timers_only_analyzeText: "timers_only s (analyzeText t s)"
  by (simp add: timers_only_def analyzeText_def setTimeout_def clearTimeout_def Let_def)

lemma timers_only_funpow:
  assumes "\<And>s. timers_only s (f s)"
  shows "timers_only s ((f ^^ n) s)"
  by (induction n) (auto intro: timers_only_refl timers_only_trans assms)

lemma timers_only_input_listeners: "timers_only s ((input_listener e ^^ n) s)"
  by (rule timers_only_funpow) (simp add: input_listener_def timers_only_analyzeText)

lemma timers_only_dispatch_input:
  "currentTextarea s = Some e \<Longrightarrow>
   timers_only (s\<lparr> currentTextarea := Some (e\<lparr> input_events := Suc (input_events e) \<rparr>) \<rparr>)
     (dispatch_input s)"
  by (simp add: dispatch_input_def timers_only_input_listeners)

declare run_timers.simps [simp del]

lemma timers_analyzeText:
  "timers (analyzeText text s) =
     filter (\<lambda>t. Some (tid t) \<noteq> timeout s) (timers s)
     @ [\<lparr> tid = next_id s, due = now s + DEBOUNCE_DELAY, task = Later text \<rparr>]"
  and next_id_analyzeText: "next_id (analyzeText text s) = Suc (next_id s)"
  and timeout_analyzeText: "timeout (analyzeText text s) = Some (next_id s)"
  by (simp_all add: analyzeText_def setTimeout_def clearTimeout_def Let_def)

lemma timers_ok_analyzeText:
  assumes "timers_ok s"
  shows "timers_ok (analyzeText text s)"
  using assms unfolding timers_ok_def timers_analyzeText next_id_analyzeText timeout_analyzeText
  by (auto simp: distinct_map_filter less_Suc_eq)

lemma later_timers_analyzeText:
  assumes "timers_ok s"
  shows "filter (\<lambda>t. is_later (task t)) (timers (analyzeText text s))
           = [\<lparr> tid = next_id s, due = now s + DEBOUNCE_DELAY, task = Later text \<rparr>]"
proof -
  have "filter (\<lambda>t. is_later (task t)) (filter (\<lambda>t. Some (tid t) \<noteq> timeout s) (timers s)) = []"
    using assms by (auto simp: timers_ok_def filter_empty_conv)
  then show ?thesis by (simp add: timers_analyzeText)
qed

lemma timers_ok_setTimeout:
  assumes "timers_ok s"
  shows "timers_ok (snd (setTimeout ResetButton w s))"
  using assms by (auto simp: timers_ok_def setTimeout_def less_Suc_eq)

lemma timers_ok_updateMartinButton [simp]:
  "timers_ok (updateMartinButton b s) = timers_ok s"
  by (cases b) (simp_all add: timers_ok_def)

lemma next_id_updateMartinButton [simp]: "next_id (updateMartinButton b s) = next_id s"
  by (cases b) simp_all

lemma timeout_updateMartinButton [simp]: "timeout (updateMartinButton b s) = timeout s"
  by (cases b) simp_all

lemma frame_analyzeText_body [simp]:
  "next_id (analyzeText_body text s) = next_id s"
  "timeout (analyzeText_body text s) = timeout s"
  "now (analyzeText_body text s) = now s"
  by (simp_all add: analyzeText_body_def analyzePrompt_def analyzeText_resume_def)

lemma timers_fire:
  "timers (fire t s) =
     (case task t of
        Later text \<Rightarrow> filter (\<lambda>u. Some (tid u) \<noteq> timeout s) (filter (\<lambda>u. tid u \<noteq> tid t) (timers s))
      | ResetButton \<Rightarrow> filter (\<lambda>u. tid u \<noteq> tid t) (timers s))"
  and next_id_fire: "next_id (fire t s) = next_id s"
  and timeout_fire: "timeout (fire t s) = timeout s"
  by (cases "task t"; simp add: fire_def later_def clearTimeout_def)+

lemma timers_ok_fire:
  assumes "timers_ok s"
  shows "timers_ok (fire t s)"
  using assms unfolding timers_ok_def timers_fire next_id_fire timeout_fire
  by (auto simp: distinct_map_filter split: task.splits)

lemma run_timers_induct_inv:
  assumes "P s"
    and "\<And>t s. P s \<Longrightarrow> t \<in> set (timers s) \<Longrightarrow> P (fire t s)"
    and "\<And>s n. P s \<Longrightarrow> P (s\<lparr> now := n \<rparr>)"
  shows "P (run_timers limit s)"
  using assms(1)
proof (induction limit s rule: run_timers.induct)
  case (1 limit s)
  show ?case
  proof (cases "next_timer limit s")
    case None
    then show ?thesis using 1 assms(3) by (simp add: run_timers.simps)
  next
    case (Some t)
    then show ?thesis using 1 assms(2) next_timer_mem[OF Some] by (simp add: run_timers.simps)
  qed
qed

lemma timers_ok_now [simp]: "timers_ok (s\<lparr> now := n \<rparr>) = timers_ok s"
  by (simp add: timers_ok_def)

lemma timers_ok_run_timers: "timers_ok s \<Longrightarrow> timers_ok (run_timers limit s)"
  by (rule run_timers_induct_inv[where P = timers_ok]) (simp_all add: timers_ok_fire)

lemma resets_only_trans: "resets_only s s' \<Longrightarrow> resets_only s' s'' \<Longrightarrow> resets_only s s''"
  by (simp add: resets_only_def)

lemma earliest_None: "earliest ts = None \<longleftrightarrow> ts = []"
  by (cases ts) (auto split: option.splits)

lemma next_timer_due: "next_timer limit s = Some t \<Longrightarrow> due t \<le> limit"
  unfolding next_timer_def by (drule earliest_mem) simp

lemma next_timer_None: "next_timer limit s = None \<longleftrightarrow> (\<forall>t \<in> set (timers s). limit < due t)"
  by (auto simp: next_timer_def earliest_None filter_empty_conv not_le)

lemma later_keeps_other_ids:
  assumes "timers_ok s" "t \<in> set (timers s)" "\<not> is_later (task t)"
  shows "filter (\<lambda>u. is_later (task u)) (filter (\<lambda>u. tid u \<noteq> tid t) (timers s))
           = filter (\<lambda>u. is_later (task u)) (timers s)"
proof -
  have "\<And>u. u \<in> set (timers s) \<Longrightarrow> is_later (task u) \<Longrightarrow> tid u \<noteq> tid t"
  proof
    fix u assume u: "u \<in> set (timers s)" "is_later (task u)" "tid u = tid t"
    have "inj_on tid (set (timers s))"
      using assms(1) by (simp add: timers_ok_def distinct_map)
    then have "u = t" using u assms(2) by (auto dest: inj_onD)
    then show False using u(2) assms(3) by simp
  qed
  then show ?thesis by (auto simp: filter_filter intro!: filter_cong)
qed

lemma fire_reset:
  assumes "task t = ResetButton"
  shows "fire t s = updateMartinButton Default
           (s\<lparr> now := max (now s) (due t), timers := filter (\<lambda>u. tid u \<noteq> tid t) (timers s) \<rparr>)"
  using assms by (simp add: fire_def)

lemma resets_only_fire:
  assumes "timers_ok s" "t \<in> set (timers s)" "\<not> is_later (task t)"
  shows "resets_only s (fire t s)"
proof -
  have r: "task t = ResetButton" using assms(3) by (cases "task t") simp_all
  show ?thesis
    using later_keeps_other_ids[OF assms]
    by (simp add: fire_reset[OF r] resets_only_def laters_def)
qed

lemma quiet_run_timers:
  assumes "timers_ok s" "quiet limit s"
  shows "resets_only s (run_timers limit s) \<and> now (run_timers limit s) = max (now s) limit"
  using assms
proof (induction limit s rule: run_timers.induct)
  case (1 limit s)
  show ?case
  proof (cases "next_timer limit s")
    case None
    then show ?thesis by (simp add: run_timers.simps resets_only_def laters_def)
  next
    case (Some t)
    have mem: "t \<in> set (timers s)" and due: "due t \<le> limit"
      using Some by (auto dest: next_timer_mem next_timer_due)
    have nl: "\<not> is_later (task t)"
      using mem due "1.prems"(2) by (auto simp: quiet_def laters_def)
    have ro: "resets_only s (fire t s)"
      using resets_only_fire[OF "1.prems"(1) mem nl] .
    have q: "quiet limit (fire t s)"
      using "1.prems"(2) ro by (simp add: quiet_def resets_only_def)
    have ok: "timers_ok (fire t s)"
      using "1.prems"(1) by (rule timers_ok_fire)
    have nw: "now (fire t s) = max (now s) (due t)"
      using nl by (cases "task t") (simp_all add: fire_def)
    from "1.IH"[OF Some ok q] ro nw due show ?thesis
      by (auto simp: run_timers.simps Some intro: resets_only_trans)
  qed
qed

lemma fire_later:
  assumes "task t = Later text"
  shows "fire t s = analyzeText_body text
           (s\<lparr> now := max (now s) (due t),
               timers := filter (\<lambda>u. Some (tid u) \<noteq> timeout s)
                            (filter (\<lambda>u. tid u \<noteq> tid t) (timers s)) \<rparr>)"
  using assms by (simp add: fire_def later_def clearTimeout_def)

lemma laters_fire_later:
  assumes "timers_ok s" "is_later (task t)"
  shows "laters (fire t s) = []"
proof -
  obtain x where t: "task t = Later x" using assms(2) by (cases "task t") simp_all
  show ?thesis
    using assms(1) by (auto simp: fire_later[OF t] laters_def timers_ok_def filter_empty_conv)
qed

lemma sent_fire_later:
  assumes "task t = Later text" "\<not> isAnalyzing s" "10 \<le> length text"
  shows "sent (fire t s) = sent s @ [text]" "outstanding (fire t s) = outstanding s @ [text]"
    "isAnalyzing (fire t s)" "button (fire t s) = Analyzing"
  using assms by (auto simp: fire_later[OF assms(1)] analyzeText_body_def analyzePrompt_def)

lemma due_run_timers:
  assumes "timers_ok s" "laters s = [L]" "task L = Later text" "due L \<le> limit"
    "\<not> isAnalyzing s" "10 \<le> length text"
  shows "sent (run_timers limit s) = sent s @ [text]
       \<and> outstanding (run_timers limit s) = outstanding s @ [text]
       \<and> isAnalyzing (run_timers limit s) \<and> laters (run_timers limit s) = []"
  using assms
proof (induction limit s rule: run_timers.induct)
  case (1 limit s)
  have Lmem: "L \<in> set (timers s)"
    using "1.prems"(2) by (metis filter_is_subset laters_def list.set_intros(1) subsetD)
  then have "next_timer limit s \<noteq> None"
    using "1.prems"(4) by (auto simp: next_timer_None not_less)
  then obtain t where Some: "next_timer limit s = Some t" by blast
  have mem: "t \<in> set (timers s)" and due: "due t \<le> limit"
    using Some by (auto dest: next_timer_mem next_timer_due)
  have ok: "timers_ok (fire t s)"
    using "1.prems"(1) by (rule timers_ok_fire)
  show ?case
  proof (cases "is_later (task t)")
    case False
    have ro: "resets_only s (fire t s)"
      using resets_only_fire[OF "1.prems"(1) mem False] .
    have "laters (fire t s) = [L]" "\<not> isAnalyzing (fire t s)"
      using ro "1.prems" by (simp_all add: resets_only_def)
    from "1.IH"[OF Some ok this(1) "1.prems"(3,4) this(2) "1.prems"(6)] ro
    show ?thesis by (simp add: run_timers.simps Some resets_only_def)
  next
    case True
    then have "t \<in> set (laters s)" using mem by (simp add: laters_def)
    then have tL: "t = L" using "1.prems"(2) by simp
    have l0: "laters (fire t s) = []"
      using laters_fire_later[OF "1.prems"(1) True] .
    then have q: "quiet limit (fire t s)" by (simp add: quiet_def)
    from quiet_run_timers[OF ok q] l0
      sent_fire_later[of t "text" s] tL "1.prems"
    show ?thesis by (simp add: run_timers.simps Some resets_only_def)
  qed
qed

lemma pending_analyzeText:
  assumes "timers_ok s"
  shows "pending text (analyzeText text s)"
proof -
  have "now (analyzeText text s) = now s"
    using timers_only_analyzeText[of s "text"] by (simp add: timers_only_def)
  then show ?thesis
    using later_timers_analyzeText[OF assms, of "text"] timers_ok_analyzeText[OF assms, of "text"]
    by (simp add: pending_def laters_def)
qed

lemma pending_advance:
  assumes "pending text s" "gap < DEBOUNCE_DELAY"
  shows "timers_ok (advance gap s)" "resets_only s (advance gap s)"
proof -
  have ok: "timers_ok s" using assms(1) by (simp add: pending_def)
  have q: "quiet (now s + gap) s"
    using assms by (auto simp: pending_def quiet_def)
  show "timers_ok (advance gap s)"
    unfolding advance_def using ok by (rule timers_ok_run_timers)
  show "resets_only s (advance gap s)"
    unfolding advance_def using quiet_run_timers[OF ok q] by simp
qed

lemma burst_pending:
  assumes "pending text s" "\<forall>(gap, t) \<in> set rest. gap < DEBOUNCE_DELAY"
  shows "pending (last (text # map snd rest)) (burst rest s)
       \<and> sent (burst rest s) = sent s \<and> outstanding (burst rest s) = outstanding s
       \<and> isAnalyzing (burst rest s) = isAnalyzing s"
  using assms
proof (induction rest arbitrary: "text" s)
  case Nil
  then show ?case by simp
next
  case (Cons p rest)
  obtain gap t where p: "p = (gap, t)" by (cases p)
  have g: "gap < DEBOUNCE_DELAY" using Cons.prems(2) p by simp
  note adv = pending_advance[OF Cons.prems(1) g]
  let ?s' = "analyzeText t (advance gap s)"
  have pend: "pending t ?s'" using adv(1) by (rule pending_analyzeText)
  have rest: "\<forall>(gap, t) \<in> set rest. gap < DEBOUNCE_DELAY" using Cons.prems(2) by simp
  have same: "sent ?s' = sent s" "outstanding ?s' = outstanding s" "isAnalyzing ?s' = isAnalyzing s"
    using adv(2) timers_only_analyzeText[of "advance gap s" t]
    by (simp_all add: resets_only_def timers_only_def)
  from Cons.IH[OF pend rest] same show ?case by (simp add: p)
qed

lemma pending_fires:
  assumes "pending text s" "DEBOUNCE_DELAY \<le> d" "\<not> isAnalyzing s" "10 \<le> length text"
  shows "sent (advance d s) = sent s @ [text]"
    "outstanding (advance d s) = outstanding s @ [text]"
proof -
  obtain i where L: "laters s = [\<lparr> tid = i, due = now s + DEBOUNCE_DELAY, task = Later text \<rparr>]"
    and ok: "timers_ok s"
    using assms(1) by (auto simp: pending_def)
  have "due \<lparr> tid = i, due = now s + DEBOUNCE_DELAY, task = Later text \<rparr> \<le> now s + d"
    using assms(2) by simp
  from due_run_timers[OF ok L _ this assms(3,4)]
  show "sent (advance d s) = sent s @ [text]" "outstanding (advance d s) = outstanding s @ [text]"
    by (simp_all add: advance_def)
qed

lemma timers_ok_upd [simp]:
  "timers_ok (s\<lparr> currentTextarea := a \<rparr>) = timers_ok s"
  "timers_ok (s\<lparr> suggestions := b \<rparr>) = timers_ok s"
  "timers_ok (s\<lparr> isAnalyzing := c \<rparr>) = timers_ok s"
  "timers_ok (s\<lparr> optimizedPrompt := d \<rparr>) = timers_ok s"
  "timers_ok (s\<lparr> button := e \<rparr>) = timers_ok s"
  "timers_ok (s\<lparr> badge_show := f \<rparr>) = timers_ok s"
  "timers_ok (s\<lparr> badge_text := g \<rparr>) = timers_ok s"
  "timers_ok (s\<lparr> card_open := h \<rparr>) = timers_ok s"
  "timers_ok (s\<lparr> card_list := i \<rparr>) = timers_ok s"
  "timers_ok (s\<lparr> metricsDiv := j \<rparr>) = timers_ok s"
  "timers_ok (s\<lparr> outstanding := k \<rparr>) = timers_ok s"
  "timers_ok (s\<lparr> sent := l \<rparr>) = timers_ok s"
  "timers_ok (s\<lparr> retryCount := m \<rparr>) = timers_ok s"
  "timers_ok (s\<lparr> startup_scheduled := p \<rparr>) = timers_ok s"
  by (simp_all add: timers_ok_def)

lemma network_ok_upd [simp]:
  "network_ok (s\<lparr> currentTextarea := a \<rparr>) = network_ok s"
  "network_ok (s\<lparr> suggestions := b \<rparr>) = network_ok s"
  "network_ok (s\<lparr> optimizedPrompt := d \<rparr>) = network_ok s"
  "network_ok (s\<lparr> button := e \<rparr>) = network_ok s"
  "network_ok (s\<lparr> badge_show := f \<rparr>) = network_ok s"
  "network_ok (s\<lparr> badge_text := g \<rparr>) = network_ok s"
  "network_ok (s\<lparr> card_open := h \<rparr>) = network_ok s"
  "network_ok (s\<lparr> card_list := i \<rparr>) = network_ok s"
  "network_ok (s\<lparr> metricsDiv := j \<rparr>) = network_ok s"
  "network_ok (s\<lparr> now := n \<rparr>) = network_ok s"
  "network_ok (s\<lparr> timers := ts \<rparr>) = network_ok s"
  "network_ok (s\<lparr> next_id := k \<rparr>) = network_ok s"
  "network_ok (s\<lparr> timeout := l \<rparr>) = network_ok s"
  "network_ok (s\<lparr> retryCount := m \<rparr>) = network_ok s"
  "network_ok (s\<lparr> startup_scheduled := p \<rparr>) = network_ok s"
  by (simp_all add: network_ok_def)

lemma timers_ok_funpow:
  assumes "\<And>s. timers_ok s \<Longrightarrow> timers_ok (f s)" "timers_ok s"
  shows "timers_ok ((f ^^ n) s)"
  by (induction n) (auto intro: assms)

lemma timers_ok_input_listeners:
  "timers_ok s \<Longrightarrow> timers_ok ((input_listener e ^^ n) s)"
  by (rule timers_ok_funpow) (simp_all add: input_listener_def timers_ok_analyzeText)

lemma timers_ok_focus_listeners:
  "timers_ok s \<Longrightarrow> timers_ok ((focus_listener e ^^ n) s)"
  by (rule timers_ok_funpow) (simp_all add: focus_listener_def Let_def timers_ok_analyzeText)

lemma timers_ok_dispatch_input: "timers_ok s \<Longrightarrow> timers_ok (dispatch_input s)"
  by (simp add: dispatch_input_def timers_ok_input_listeners split: option.splits)

lemma timers_ok_applySuggestion:
  assumes "timers_ok s" "applySuggestion i s = Inr s'"
  shows "timers_ok s'"
proof -
  have "\<And>x. timers_ok (dispatch_input (s\<lparr> currentTextarea := x \<rparr>))"
    using assms(1) by (simp add: timers_ok_dispatch_input)
  then show ?thesis
    using assms
    by (auto simp: applySuggestion_def Let_def showSuggestions_def closeMartinCard_def
             split: option.splits if_splits)
qed

lemma timers_ok_acceptAllSuggestions:
  assumes "timers_ok s"
  shows "timers_ok (acceptAllSuggestions s)"
proof -
  have "\<And>x. timers_ok (updateMartinButton Optimized
                 (closeMartinCard (dispatch_input (s\<lparr> currentTextarea := x \<rparr>))))"
    using assms by (simp add: timers_ok_dispatch_input closeMartinCard_def)
  then show ?thesis
    using assms
    by (auto simp: acceptAllSuggestions_def Let_def simp del: updateMartinButton.simps
             intro!: timers_ok_setTimeout split: option.splits)
qed

lemma timers_ok_response: "timers_ok s \<Longrightarrow> timers_ok (response r s)"
  by (auto simp: response_def analyzeText_resume_def Let_def
           split: list.splits option.splits)

lemma timers_ok_step:
  assumes "timers_ok s"
  shows "timers_ok (step ev s)"
proof (cases ev)
  case (UserInput x)
  then show ?thesis
    using assms
    by (auto simp: user_input_def Let_def timers_ok_input_listeners split: option.splits)
next
  case Focus
  then show ?thesis
    using assms by (auto simp: user_focus_def timers_ok_focus_listeners split: option.splits)
next
  case Click
  then show ?thesis
    using assms
    by (auto simp: button_click_def Let_def timers_ok_analyzeText showSuggestions_def
             split: option.splits)
next
  case (Apply i)
  then show ?thesis
    using assms by (auto dest: timers_ok_applySuggestion split: sum.splits)
next
  case AcceptAll
  then show ?thesis using assms by (simp add: timers_ok_acceptAllSuggestions)
next
  case Detach
  then show ?thesis using assms by (simp add: detach_def split: option.splits)
next
  case (Mutation q)
  then show ?thesis
    using assms
    by (auto simp: observer_callback_def findAndMonitorTextarea_def split: option.splits)
next
  case (Initialize q)
  then show ?thesis
    using assms
    by (auto simp: initializeMonitoring_def findAndMonitorTextarea_def split: option.splits)
next
  case (Advance d)
  then show ?thesis using assms by (simp add: advance_def timers_ok_run_timers)
next
  case (Response r)
  then show ?thesis using assms by (simp add: timers_ok_response)
qed

lemma timers_ok_run: "timers_ok s \<Longrightarrow> timers_ok (run evs s)"
  by (induction evs arbitrary: s) (simp_all add: timers_ok_step)

lemma timers_ok_init: "timers_ok init"
  by (simp add: timers_ok_def init_def)

lemma network_ok_timers_only: "timers_only s s' \<Longrightarrow> network_ok s' = network_ok s"
  by (simp add: timers_only_def network_ok_def)

lemma network_ok_analyzeText [simp]: "network_ok (analyzeText t s) = network_ok s"
  using timers_only_analyzeText by (rule network_ok_timers_only)

lemma network_ok_analyzeText_body: "network_ok s \<Longrightarrow> network_ok (analyzeText_body t s)"
  by (auto simp: network_ok_def analyzeText_body_def analyzePrompt_def split: if_splits)

lemma network_ok_fire:
  assumes "network_ok s"
  shows "network_ok (fire t s)"
proof (cases "task t")
  case (Later x)
  have "network_ok (s\<lparr> now := max (now s) (due t),
               timers := filter (\<lambda>u. Some (tid u) \<noteq> timeout s)
                            (filter (\<lambda>u. tid u \<noteq> tid t) (timers s)) \<rparr>)"
    using assms by simp
  then show ?thesis unfolding fire_later[OF Later] by (rule network_ok_analyzeText_body)
next
  case ResetButton
  then show ?thesis using assms by (simp add: fire_reset[OF ResetButton])
qed

lemma network_ok_run_timers: "network_ok s \<Longrightarrow> network_ok (run_timers limit s)"
  by (rule run_timers_induct_inv[where P = network_ok]) (simp_all add: network_ok_fire)

lemma network_ok_response: "network_ok s \<Longrightarrow> network_ok (response r s)"
  by (auto simp: response_def analyzeText_resume_def Let_def network_ok_def
           split: list.splits option.splits if_splits)

lemma network_ok_funpow:
  assumes "\<And>s. timers_only s (f s)"
  shows "network_ok ((f ^^ n) s) = network_ok s"
  using timers_only_funpow[of f s n, OF assms] by (rule network_ok_timers_only)

lemma network_ok_input_listeners [simp]:
  "network_ok ((input_listener e ^^ n) s) = network_ok s"
  by (rule network_ok_funpow) (simp add: input_listener_def timers_only_analyzeText)

lemma timers_only_focus_listener: "timers_only s (focus_listener e s)"
  by (simp add: focus_listener_def Let_def timers_only_analyzeText timers_only_refl)

lemma network_ok_focus_listeners [simp]:
  "network_ok ((focus_listener e ^^ n) s) = network_ok s"
  by (rule network_ok_funpow) (rule timers_only_focus_listener)

lemma network_ok_dispatch_input [simp]: "network_ok (dispatch_input s) = network_ok s"
  by (simp add: dispatch_input_def split: option.splits)

lemma network_ok_applySuggestion:
  assumes "network_ok s" "applySuggestion i s = Inr s'"
  shows "network_ok s'"
  using assms
  by (auto simp: applySuggestion_def Let_def showSuggestions_def closeMartinCard_def
           split: option.splits if_splits)

lemma network_ok_acceptAllSuggestions:
  "network_ok s \<Longrightarrow> network_ok (acceptAllSuggestions s)"
  by (auto simp: acceptAllSuggestions_def Let_def setTimeout_def closeMartinCard_def
           split: option.splits if_splits)

lemma network_ok_step:
  assumes "network_ok s"
  shows "network_ok (step ev s)"
proof (cases ev)
  case (UserInput x)
  then show ?thesis
    using assms by (auto simp: user_input_def Let_def split: option.splits)
next
  case Focus
  then show ?thesis
    using assms by (auto simp: user_focus_def split: option.splits)
next
  case Click
  then show ?thesis
    using assms
    by (auto simp: button_click_def Let_def showSuggestions_def split: option.splits)
next
  case (Apply i)
  then show ?thesis
    using assms by (auto dest: network_ok_applySuggestion split: sum.splits)
next
  case AcceptAll
  then show ?thesis using assms by (simp add: network_ok_acceptAllSuggestions)
next
  case Detach
  then show ?thesis using assms by (simp add: detach_def split: option.splits)
next
  case (Mutation q)
  then show ?thesis
    using assms
    by (auto simp: observer_callback_def findAndMonitorTextarea_def split: option.splits)
next
  case (Initialize q)
  then show ?thesis
    using assms
    by (auto simp: initializeMonitoring_def findAndMonitorTextarea_def split: option.splits)
next
  case (Advance d)
  then show ?thesis using assms by (simp add: advance_def network_ok_run_timers)
next
  case (Response r)
  then show ?thesis using assms by (simp add: network_ok_response)
qed

lemma network_ok_run: "network_ok s \<Longrightarrow> network_ok (run evs s)"
  by (induction evs arbitrary: s) (simp_all add: network_ok_step)

lemma network_ok_init: "network_ok init"
  by (simp add: network_ok_def init_def)

lemma busy_run_timers:
  assumes "isAnalyzing s"
  shows "isAnalyzing (run_timers limit s) \<and> sent (run_timers limit s) = sent s
       \<and> outstanding (run_timers limit s) = outstanding s"
proof (rule run_timers_induct_inv[where P = "\<lambda>s'. isAnalyzing s' \<and> sent s' = sent s
       \<and> outstanding s' = outstanding s"])
  show "isAnalyzing s \<and> sent s = sent s \<and> outstanding s = outstanding s"
    using assms by simp
next
  fix t and s' :: state
  assume "isAnalyzing s' \<and> sent s' = sent s \<and> outstanding s' = outstanding s"
  then show "isAnalyzing (fire t s') \<and> sent (fire t s') = sent s
       \<and> outstanding (fire t s') = outstanding s"
    by (cases "task t") (simp_all add: fire_def later_def clearTimeout_def analyzeText_body_def)
next
  fix s' :: state and n
  assume "isAnalyzing s' \<and> sent s' = sent s \<and> outstanding s' = outstanding s"
  then show "isAnalyzing (s'\<lparr> now := n \<rparr>) \<and> sent (s'\<lparr> now := n \<rparr>) = sent s
       \<and> outstanding (s'\<lparr> now := n \<rparr>) = outstanding s"
    by simp
qed

lemma due_run_timers_cleared:
  assumes "timers_ok s" "\<forall>t \<in> set (laters s). due t \<le> limit"
  shows "laters (run_timers limit s) = []"
  using assms
proof (induction limit s rule: run_timers.induct)
  case (1 limit s)
  show ?case
  proof (cases "next_timer limit s")
    case None
    then have "\<forall>t \<in> set (timers s). limit < due t" by (simp add: next_timer_None)
    then have "laters s = []"
      using "1.prems"(2) by (fastforce simp: laters_def filter_empty_conv)
    then show ?thesis using None by (simp add: run_timers.simps laters_def)
  next
    case (Some t)
    have mem: "t \<in> set (timers s)" using Some by (rule next_timer_mem)
    have ok: "timers_ok (fire t s)" using "1.prems"(1) by (rule timers_ok_fire)
    have "\<forall>u \<in> set (laters (fire t s)). due u \<le> limit"
    proof (cases "is_later (task t)")
      case True
      then show ?thesis using laters_fire_later[OF "1.prems"(1) True] by simp
    next
      case False
      then show ?thesis
        using resets_only_fire[OF "1.prems"(1) mem False] "1.prems"(2)
        by (simp add: resets_only_def)
    qed
    from "1.IH"[OF Some ok this] show ?thesis by (simp add: run_timers.simps Some)
  qed
qed

lemma indexOf_Some:
  "indexOf pat str = Some i \<Longrightarrow> str = take i str @ pat @ drop (i + length pat) str"
proof (induction str arbitrary: i)
  case Nil
  then show ?case by (simp split: if_splits)
next
  case (Cons c cs)
  show ?case
  proof (cases "take (length pat) (c # cs) = pat")
    case True
    then have "i = 0" using Cons.prems by simp
    moreover have "c # cs = pat @ drop (length pat) (c # cs)"
      using True append_take_drop_id[of "length pat" "c # cs"] by simp
    ultimately show ?thesis by simp
  next
    case False
    then obtain j where j: "indexOf pat cs = Some j" "i = Suc j"
      using Cons.prems by auto
    from Cons.IH[OF j(1)] show ?thesis using j(2) by simp
  qed
qed

lemma indexOf_prefix: "indexOf pat (pat @ post) = Some 0"
proof (cases "pat @ post")
  case Nil
  then show ?thesis by simp
next
  case (Cons c cs)
  have "take (length pat) (pat @ post) = pat" by simp
  then show ?thesis unfolding Cons by simp
qed

lemma indexOf_occurs: "indexOf pat (pre @ pat @ post) \<noteq> None"
proof (induction pre)
  case Nil
  then show ?case by (simp add: indexOf_prefix)
next
  case (Cons c pre)
  then show ?case by auto
qed

lemma indexOf_None_iff:
  "indexOf pat str = None \<longleftrightarrow> \<not> (\<exists>pre post. str = pre @ pat @ post)"
proof
  assume n: "indexOf pat str = None"
  show "\<not> (\<exists>pre post. str = pre @ pat @ post)"
  proof
    assume "\<exists>pre post. str = pre @ pat @ post"
    then obtain pre post where "str = pre @ pat @ post" by blast
    then show False using n indexOf_occurs[of pat pre post] by simp
  qed
next
  assume a: "\<not> (\<exists>pre post. str = pre @ pat @ post)"
  show "indexOf pat str = None"
  proof (rule ccontr)
    assume "indexOf pat str \<noteq> None"
    then obtain i where "indexOf pat str = Some i" by auto
    from indexOf_Some[OF this] a show False by blast
  qed
qed

lemma js_replace_absent:
  assumes "\<not> (\<exists>pre post. str = pre @ pat @ post)"
  shows "js_replace str pat rep = str"
proof -
  have "indexOf pat str = None" using assms indexOf_None_iff by blast
  then show ?thesis by (simp add: js_replace_def)
qed

lemma applySuggestion_effect:
  assumes "currentTextarea s = Some e" and "el_value e = Some v"
    and "i < length (suggestions s)"
  shows "\<exists>s'. applySuggestion i s = Inr s'
           \<and> currentTextarea s' = Some (e\<lparr> el_value := Some (js_replace v
                 (original (suggestions s ! i)) (suggested (suggestions s ! i))),
                 input_events := Suc (input_events e) \<rparr>)
           \<and> suggestions s' = take i (suggestions s) @ drop (Suc i) (suggestions s)"
proof -
  let ?e1 = "e\<lparr> el_value :=
                Some (js_replace v (original (suggestions s ! i)) (suggested (suggestions s ! i))) \<rparr>"
  let ?s1 = "s\<lparr> currentTextarea := Some ?e1 \<rparr>"
  have "timers_only (?s1\<lparr> currentTextarea := Some (?e1\<lparr> input_events := Suc (input_events ?e1) \<rparr>) \<rparr>)
          (dispatch_input ?s1)"
    by (rule timers_only_dispatch_input) simp
  then have d: "suggestions (dispatch_input ?s1) = suggestions s"
    "currentTextarea (dispatch_input ?s1)
       = Some (?e1\<lparr> input_events := Suc (input_events e) \<rparr>)"
    by (simp_all add: timers_only_def)
  show ?thesis
    using assms d
    by (simp add: applySuggestion_def Let_def showSuggestions_def closeMartinCard_def)
qed

lemma acceptAllSuggestions_effect:
  assumes "currentTextarea s = Some e" and "optimizedPrompt s \<noteq> []"
  shows "currentTextarea (acceptAllSuggestions s)
           = Some (e\<lparr> el_value := Some (optimizedPrompt s),
                      input_events := Suc (input_events e) \<rparr>)"
    and "suggestions (acceptAllSuggestions s) = suggestions s"
    and "button (acceptAllSuggestions s) = Optimized"
proof -
  let ?e1 = "e\<lparr> el_value := Some (optimizedPrompt s) \<rparr>"
  let ?s1 = "s\<lparr> currentTextarea := Some ?e1 \<rparr>"
  have "timers_only (?s1\<lparr> currentTextarea := Some (?e1\<lparr> input_events := Suc (input_events ?e1) \<rparr>) \<rparr>)
          (dispatch_input ?s1)"
    by (rule timers_only_dispatch_input) simp
  then have d: "suggestions (dispatch_input ?s1) = suggestions s"
    "currentTextarea (dispatch_input ?s1)
       = Some (?e1\<lparr> input_events := Suc (input_events e) \<rparr>)"
    by (simp_all add: timers_only_def)
  show "currentTextarea (acceptAllSuggestions s)
           = Some (e\<lparr> el_value := Some (optimizedPrompt s),
                      input_events := Suc (input_events e) \<rparr>)"
    and "suggestions (acceptAllSuggestions s) = suggestions s"
    and "button (acceptAllSuggestions s) = Optimized"
    using assms d
    by (simp_all add: acceptAllSuggestions_def Let_def setTimeout_def closeMartinCard_def)
qed

lemma short_run_timers:
  assumes "\<forall>t \<in> set (timers s). \<forall>x. task t = Later x \<longrightarrow> length x < 10"
  shows "sent (run_timers limit s) = sent s \<and> outstanding (run_timers limit s) = outstanding s"
proof -
  let ?P = "\<lambda>s'. (\<forall>t \<in> set (timers s'). \<forall>x. task t = Later x \<longrightarrow> length x < 10)
                \<and> sent s' = sent s \<and> outstanding s' = outstanding s"
  have "?P (run_timers limit s)"
  proof (rule run_timers_induct_inv[where P = ?P])
    show "?P s" using assms by simp
  next
    fix t and s' :: state
    assume P: "?P s'" and t: "t \<in> set (timers s')"
    show "?P (fire t s')"
    proof (cases "task t")
      case (Later x)
      then have "length x < 10" using P t by blast
      then show ?thesis
        using P by (auto simp: fire_later[OF Later] analyzeText_body_def)
    next
      case ResetButton
      then show ?thesis using P by (auto simp: fire_reset[OF ResetButton])
    qed
  next
    fix s' :: state and n
    assume "?P s'"
    then show "?P (s'\<lparr> now := n \<rparr>)" by simp
  qed
  then show ?thesis by simp
qed

lemma funpow_fixed:
  assumes "\<And>s. f s = s"
  shows "(f ^^ n) s = s"
  by (induction n) (simp_all add: assms)

lemma earliest_snoc_last:
  assumes "earliest (xs @ [r]) = Some r" "r \<notin> set xs"
  shows "\<forall>x \<in> set xs. due r < due x"
  using assms
proof (induction xs)
  case Nil
  then show ?case by simp
next
  case (Cons x xs)
  from Cons.prems have e: "earliest (xs @ [r]) = Some r" "due r < due x"
    by (auto split: option.splits if_splits)
  with Cons show ?case by simp
qed

lemma reset_last_run_timers:
  assumes "timers_ok s" "timers s = ts @ [R]" "task R = ResetButton" "due R = limit"
    "timeout s \<noteq> Some (tid R)"
  shows "button (run_timers limit s) = Default"
  using assms
proof (induction limit s arbitrary: ts rule: run_timers.induct)
  case (1 limit s)
  have Rmem: "R \<in> set (timers s)" using "1.prems"(2) by simp
  have dist: "distinct (map tid (ts @ [R]))"
    using "1.prems"(1,2) by (simp add: timers_ok_def)
  then have Rnot: "R \<notin> set ts" by auto
  have "next_timer limit s \<noteq> None"
    using Rmem "1.prems"(4) by (auto simp: next_timer_None)
  then obtain t where Some: "next_timer limit s = Some t" by blast
  have mem: "t \<in> set (timers s)" using Some by (rule next_timer_mem)
  show ?case
  proof (cases "t = R")
    case True
    have f: "filter (\<lambda>t. due t \<le> limit) (timers s) = filter (\<lambda>t. due t \<le> limit) ts @ [R]"
      using "1.prems"(2,4) by simp
    have "\<forall>x \<in> set (filter (\<lambda>t. due t \<le> limit) ts). due R < due x"
      using Some True Rnot unfolding next_timer_def f
      by (intro earliest_snoc_last) auto
    then have none: "filter (\<lambda>t. due t \<le> limit) ts = []"
      using "1.prems"(4) by (auto simp: filter_empty_conv)
    have tim: "timers (fire R s) = filter (\<lambda>u. tid u \<noteq> tid R) ts"
      using "1.prems"(2,3) by (simp add: fire_reset)
    have "next_timer limit (fire R s) = None"
      using none unfolding next_timer_def tim
      by (auto simp: filter_empty_conv earliest_None)
    moreover have "button (fire R s) = Default"
      using "1.prems"(3) by (simp add: fire_reset)
    ultimately show ?thesis
      using Some True by (simp add: run_timers.simps[of limit s] run_timers.simps[of limit "fire R s"])
  next
    case False
    then have tts: "t \<in> set ts" using mem "1.prems"(2) by simp
    have ne: "tid t \<noteq> tid R"
      using dist tts by (force simp: image_iff)
    have ok: "timers_ok (fire t s)" using "1.prems"(1) by (rule timers_ok_fire)
    have to: "timeout (fire t s) \<noteq> Some (tid R)"
      using "1.prems"(5) by (simp add: timeout_fire)
    have "\<exists>ts'. timers (fire t s) = ts' @ [R]"
      using "1.prems"(2,5) ne by (cases "task t") (auto simp: timers_fire)
    then obtain ts' where "timers (fire t s) = ts' @ [R]" by blast
    from "1.IH"[OF Some ok this "1.prems"(3,4) to] show ?thesis
      by (simp add: run_timers.simps[of limit s] Some)
  qed
qed


lemma acceptAllSuggestions_timers:
  assumes "currentTextarea s = Some e" and "optimizedPrompt s \<noteq> []" and "timers_ok s"
  shows "\<exists>ts i. timers (acceptAllSuggestions s)
                   = ts @ [\<lparr> tid = i, due = now s + 2000, task = ResetButton \<rparr>]
              \<and> timeout (acceptAllSuggestions s) \<noteq> Some i"
    and "now (acceptAllSuggestions s) = now s"
proof -
  let ?e1 = "e\<lparr> el_value := Some (optimizedPrompt s) \<rparr>"
  let ?s1 = "s\<lparr> currentTextarea := Some ?e1 \<rparr>"
  let ?s2 = "dispatch_input ?s1"
  have "timers_only (?s1\<lparr> currentTextarea := Some (?e1\<lparr> input_events := Suc (input_events ?e1) \<rparr>) \<rparr>) ?s2"
    by (rule timers_only_dispatch_input) simp
  then have n: "now ?s2 = now s" by (simp add: timers_only_def)
  have "timers_ok ?s2" using assms(3) by (simp add: timers_ok_dispatch_input)
  then have t: "timeout ?s2 \<noteq> Some (next_id ?s2)" by (auto simp: timers_ok_def)
  have a: "acceptAllSuggestions s
             = snd (setTimeout ResetButton 2000 (updateMartinButton Optimized (closeMartinCard ?s2)))"
    using assms(1,2) by (simp add: acceptAllSuggestions_def Let_def del: updateMartinButton.simps)
  show "now (acceptAllSuggestions s) = now s"
    unfolding a using n by (simp add: setTimeout_def closeMartinCard_def)
  show "\<exists>ts i. timers (acceptAllSuggestions s)
                   = ts @ [\<lparr> tid = i, due = now s + 2000, task = ResetButton \<rparr>]
              \<and> timeout (acceptAllSuggestions s) \<noteq> Some i"
    unfolding a using n t by (simp add: setTimeout_def closeMartinCard_def)
qed

lemma response_fields:
  "timers (response r s) = timers s" "timeout (response r s) = timeout s"
  "next_id (response r s) = next_id s" "now (response r s) = now s"
  "sent (response r s) = sent s" "laters (response r s) = laters s"
  by (cases "outstanding s";
      simp add: response_def analyzeText_resume_def Let_def laters_def split: option.splits)+

lemma response_idle:
  assumes "network_ok s"
  shows "\<not> isAnalyzing (response r s)" "outstanding (response r s) = []"
  using assms
  by (cases "outstanding s";
      simp add: response_def analyzeText_resume_def Let_def network_ok_def
           split: option.splits if_splits)+


lemma settled_before_timer:
  assumes ok: "timers_ok s" "network_ok s"
    and len: "10 \<le> length x"
    and g: "g < DEBOUNCE_DELAY" and d: "DEBOUNCE_DELAY \<le> g + d"
  shows "sent (advance d (response r (advance g (analyzeText x s)))) = sent s @ [x]"
proof -
  let ?a = "analyzeText x s"
  let ?b = "advance g ?a"
  let ?c = "response r ?b"
  have pa: "pending x ?a" using ok(1) by (rule pending_analyzeText)
  have same: "sent ?a = sent s" "now ?a = now s"
    using timers_only_analyzeText[of s x] by (simp_all add: timers_only_def)
  have na: "network_ok ?a" using ok(2) by simp
  have okb: "timers_ok ?b" and rb: "resets_only ?a ?b"
    using pending_advance[OF pa g] by simp_all
  have nowb: "now ?b = now s + g"
  proof -
    have q: "quiet (now ?a + g) ?a" using pa g by (auto simp: pending_def quiet_def)
    have "timers_ok ?a" using pa by (simp add: pending_def)
    from quiet_run_timers[OF this q] show ?thesis by (simp add: advance_def same)
  qed
  have nb: "network_ok ?b" unfolding advance_def using na by (rule network_ok_run_timers)
  obtain i where L: "laters ?a = [\<lparr> tid = i, due = now ?a + DEBOUNCE_DELAY, task = Later x \<rparr>]"
    using pa by (auto simp: pending_def)
  have Lc: "laters ?c = [\<lparr> tid = i, due = now s + DEBOUNCE_DELAY, task = Later x \<rparr>]"
    using L rb by (simp add: response_fields resets_only_def same)
  have okc: "timers_ok ?c" using okb by (rule timers_ok_response)
  have idle: "\<not> isAnalyzing ?c" using response_idle(1)[OF nb] .
  have nowc: "now ?c = now s + g" by (simp add: response_fields nowb)
  have "due \<lparr> tid = i, due = now s + DEBOUNCE_DELAY, task = Later x \<rparr> \<le> now ?c + d"
    using d by (simp add: nowc)
  from due_run_timers[OF okc Lc _ this idle len]
  have "sent (advance d ?c) = sent ?c @ [x]" by (simp add: advance_def)
  moreover have "sent ?c = sent s"
    using rb by (simp add: response_fields resets_only_def same)
  ultimately show ?thesis by simp
qed


lemma dropped_for_good:
  assumes ok: "timers_ok s" "network_ok s" and busy: "isAnalyzing s"
    and d: "DEBOUNCE_DELAY \<le> d"
  shows "sent (advance d (analyzeText x s)) = sent s"
    "laters (advance d (analyzeText x s)) = []"
    "sent (advance d' (response r (advance d (analyzeText x s)))) = sent s"
proof -
  let ?a = "analyzeText x s"
  let ?b = "advance d ?a"
  let ?c = "response r ?b"
  have pa: "pending x ?a" using ok(1) by (rule pending_analyzeText)
  have same: "sent ?a = sent s" "isAnalyzing ?a = isAnalyzing s"
    using timers_only_analyzeText[of s x] by (simp_all add: timers_only_def)
  have "isAnalyzing ?a" using same busy by simp
  from busy_run_timers[OF this, of "now ?a + d"]
  show sb: "sent ?b = sent s" by (simp add: advance_def same)
  show lb: "laters ?b = []"
    unfolding advance_def
    using pa d by (intro due_run_timers_cleared) (auto simp: pending_def)
  have okb: "timers_ok ?b"
    unfolding advance_def using pa by (intro timers_ok_run_timers) (simp add: pending_def)
  have okc: "timers_ok ?c" using okb by (rule timers_ok_response)
  have "laters ?c = []" using lb by (simp add: response_fields)
  then have "quiet (now ?c + d') ?c" by (simp add: quiet_def)
  from quiet_run_timers[OF okc this]
  have "resets_only ?c (run_timers (now ?c + d') ?c)" by simp
  then have "sent (advance d' ?c) = sent ?c"
    unfolding advance_def by (simp only: resets_only_def)
  then show "sent (advance d' ?c) = sent s"
    using sb by (simp add: response_fields)
qed

lemma run_timers_nothing_due:
  assumes "\<forall>t \<in> set (timers s). limit < due t"
  shows "run_timers limit s = s\<lparr> now := max (now s) limit \<rparr>"
proof -
  have "next_timer limit s = None" using assms by (simp add: next_timer_None)
  then show ?thesis by (simp add: run_timers.simps[of limit s])
qed

lemma reset_pending_before_due:
  assumes "timers_ok s" "R \<in> set (timers s)" "limit < due R" "timeout s \<noteq> Some (tid R)"
  shows "R \<in> set (timers (run_timers limit s))"
  using assms
proof (induction limit s rule: run_timers.induct)
  case (1 limit s)
  show ?case
  proof (cases "next_timer limit s")
    case None
    then show ?thesis using "1.prems"(2) by (simp add: run_timers.simps[of limit s])
  next
    case (Some t)
    have mem: "t \<in> set (timers s)" and due: "due t \<le> limit"
      using Some by (auto dest: next_timer_mem next_timer_due)
    have "t \<noteq> R" using due "1.prems"(3) by auto
    moreover have "inj_on tid (set (timers s))"
      using "1.prems"(1) by (simp add: timers_ok_def distinct_map)
    ultimately have ne: "tid t \<noteq> tid R"
      using mem "1.prems"(2) by (auto dest: inj_onD)
    have R: "R \<in> set (timers (fire t s))"
      using "1.prems"(2,4) ne by (cases "task t") (auto simp: timers_fire)
    have ok: "timers_ok (fire t s)" using "1.prems"(1) by (rule timers_ok_fire)
    have to: "timeout (fire t s) \<noteq> Some (tid R)"
      using "1.prems"(4) by (simp add: timeout_fire)
    from "1.IH"[OF Some ok R "1.prems"(3) to] show ?thesis
      by (simp add: run_timers.simps[of limit s] Some)
  qed
qed


lemma reset_gone_run_timers:
  assumes "timers_ok s" "timers s = ts @ [R]" "task R = ResetButton" "due R = limit"
    "timeout s \<noteq> Some (tid R)"
  shows "R \<notin> set (timers (run_timers limit s))"
  using assms
proof (induction limit s arbitrary: ts rule: run_timers.induct)
  case (1 limit s)
  have Rmem: "R \<in> set (timers s)" using "1.prems"(2) by simp
  have dist: "distinct (map tid (ts @ [R]))"
    using "1.prems"(1,2) by (simp add: timers_ok_def)
  then have Rnot: "R \<notin> set ts" by auto
  have "next_timer limit s \<noteq> None"
    using Rmem "1.prems"(4) by (auto simp: next_timer_None)
  then obtain t where Some: "next_timer limit s = Some t" by blast
  have mem: "t \<in> set (timers s)" using Some by (rule next_timer_mem)
  show ?case
  proof (cases "t = R")
    case True
    have f: "filter (\<lambda>t. due t \<le> limit) (timers s) = filter (\<lambda>t. due t \<le> limit) ts @ [R]"
      using "1.prems"(2,4) by simp
    have "\<forall>x \<in> set (filter (\<lambda>t. due t \<le> limit) ts). due R < due x"
      using Some True Rnot unfolding next_timer_def f
      by (intro earliest_snoc_last) auto
    then have none: "filter (\<lambda>t. due t \<le> limit) ts = []"
      using "1.prems"(4) by (auto simp: filter_empty_conv)
    have tim: "timers (fire R s) = filter (\<lambda>u. tid u \<noteq> tid R) ts"
      using "1.prems"(2,3) by (simp add: fire_reset)
    have "next_timer limit (fire R s) = None"
      using none unfolding next_timer_def tim
      by (auto simp: filter_empty_conv earliest_None)
    then have "timers (run_timers limit s) = filter (\<lambda>u. tid u \<noteq> tid R) ts"
      using Some True tim
      by (simp add: run_timers.simps[of limit s] run_timers.simps[of limit "fire R s"])
    then show ?thesis by simp
  next
    case False
    then have tts: "t \<in> set ts" using mem "1.prems"(2) by simp
    have ne: "tid t \<noteq> tid R"
      using dist tts by (force simp: image_iff)
    have ok: "timers_ok (fire t s)" using "1.prems"(1) by (rule timers_ok_fire)
    have to: "timeout (fire t s) \<noteq> Some (tid R)"
      using "1.prems"(5) by (simp add: timeout_fire)
    have "\<exists>ts'. timers (fire t s) = ts' @ [R]"
      using "1.prems"(2,5) ne by (cases "task t") (auto simp: timers_fire)
    then obtain ts' where "timers (fire t s) = ts' @ [R]" by blast
    from "1.IH"[OF Some ok this "1.prems"(3,4) to] show ?thesis
      by (simp add: run_timers.simps[of limit s] Some)
  qed
qed

lemma acceptAllSuggestions_queue:
  assumes "currentTextarea s = Some e" and "optimizedPrompt s \<noteq> []" and "timers_ok s"
  shows "timers (acceptAllSuggestions s) \<noteq> []"
    and "task (last (timers (acceptAllSuggestions s))) = ResetButton"
    and "due (last (timers (acceptAllSuggestions s))) = now s + 2000"
    and "timeout (acceptAllSuggestions s) \<noteq> Some (tid (last (timers (acceptAllSuggestions s))))"
    and "timers (acceptAllSuggestions s)
           = butlast (timers (acceptAllSuggestions s)) @ [last (timers (acceptAllSuggestions s))]"
proof -
  obtain ts i where t: "timers (acceptAllSuggestions s)
                   = ts @ [\<lparr> tid = i, due = now s + 2000, task = ResetButton \<rparr>]"
      "timeout (acceptAllSuggestions s) \<noteq> Some i"
    using acceptAllSuggestions_timers(1)[OF assms] by blast
  show "timers (acceptAllSuggestions s) \<noteq> []" using t(1) by simp
  show "task (last (timers (acceptAllSuggestions s))) = ResetButton"
    and "due (last (timers (acceptAllSuggestions s))) = now s + 2000"
    and "timeout (acceptAllSuggestions s) \<noteq> Some (tid (last (timers (acceptAllSuggestions s))))"
    and "timers (acceptAllSuggestions s)
           = butlast (timers (acceptAllSuggestions s)) @ [last (timers (acceptAllSuggestions s))]"
    using t by simp_all
qed

lemma applySuggestion_removes_entry:
  assumes "currentTextarea s = Some e" and "el_value e = Some v"
    and "i < length (suggestions s)"
  shows "\<exists>s'. applySuggestion i s = Inr s'
           \<and> suggestions s' = take i (suggestions s) @ drop (Suc i) (suggestions s)
           \<and> length (suggestions s') = length (suggestions s) - 1
           \<and> (\<forall>j < length (suggestions s').
                 suggestions s' ! j = (if j < i then suggestions s ! j else suggestions s ! Suc j))"
proof -
  define rest where "rest = take i (suggestions s) @ drop (Suc i) (suggestions s)"
  have "\<exists>s'. applySuggestion i s = Inr s' \<and> suggestions s' = rest"
    using applySuggestion_effect[OF assms] unfolding rest_def by blast
  moreover have "length rest = length (suggestions s) - 1"
    using assms(3) by (simp add: rest_def)
  moreover have "\<forall>j < length rest.
      rest ! j = (if j < i then suggestions s ! j else suggestions s ! Suc j)"
    using assms(3) by (auto simp: rest_def nth_append min_def)
  ultimately show ?thesis unfolding rest_def by auto
qed

lemma applySuggestion_no_value:
  assumes "currentTextarea s = Some e" and "el_value e = None"
    and "i < length (suggestions s)"
  shows "applySuggestion i s = Inl TypeError" and "step (Apply i) s = s"
  using assms by (simp_all add: applySuggestion_def)

lemma applySuggestion_original_absent:
  assumes "currentTextarea s = Some e" and "el_value e = Some v"
    and "i < length (suggestions s)"
    and "\<not> (\<exists>pre post. v = pre @ original (suggestions s ! i) @ post)"
  shows "\<exists>s' e'. applySuggestion i s = Inr s' \<and> currentTextarea s' = Some e'
           \<and> el_value e' = Some v \<and> textContent e' = textContent e
           \<and> suggestions s' = take i (suggestions s) @ drop (Suc i) (suggestions s)"
  using applySuggestion_effect[OF assms(1-3)] js_replace_absent[OF assms(4)]
  by auto

lemmas exec =
  page_def init_def selectors_def observer_callback_def findAndMonitorTextarea_def
  initializeMonitoring_def maxRetries_def
  user_input_def user_focus_def detach_def input_listener_def focus_listener_def
  element_text_def analyzeText_def setTimeout_def clearTimeout_def
  advance_def run_timers.simps next_timer_def fire_def later_def analyzeText_body_def
  analyzePrompt_def response_def analyzeText_resume_def DEBOUNCE_DELAY_def Let_def
  button_click_def showSuggestions_def closeMartinCard_def applySuggestion_def
  acceptAllSuggestions_def dispatch_input_def js_replace_def
  no_suggestions_def two_suggestions_def sug_vague_def sug_polite_def textarea_def
  page10_def edited_def stale_def armed_def ce_page_def editable_def

lemma reachable_ok: "timers_ok (run evs init)" "network_ok (run evs init)"
  by (simp_all add: timers_ok_run timers_ok_init network_ok_run network_ok_init)

section \<open>Applying one suggestion\<close>

text \<open>
  C7. On a monitored element with a string value, applying the suggestion at a valid
  index \<open>i\<close> leaves the sequence without its \<open>i\<close>-th entry: one entry fewer, the
  entries before \<open>i\<close> where they were, the entries after \<open>i\<close> moved down by one. On a
  monitored element without a string value (a contenteditable element, which the
  script's own selectors pick) the handler throws before the removal and the sequence
  stays as it was.
\<close>

theorem applySuggestion_removes_unless_no_value:
  assumes "currentTextarea s = Some e" and "el_value e = Some v"
    and "i < length (suggestions s)"
    and "currentTextarea s' = Some e'" and "el_value e' = None"
    and "i' < length (suggestions s')"
  shows "(\<exists>t. applySuggestion i s = Inr t
           \<and> suggestions t = take i (suggestions s) @ drop (Suc i) (suggestions s)
           \<and> length (suggestions t) = length (suggestions s) - 1
           \<and> (\<forall>j < length (suggestions t).
                 suggestions t ! j = (if j < i then suggestions s ! j else suggestions s ! Suc j)))
       \<and> applySuggestion i' s' = Inl TypeError
       \<and> suggestions (step (Apply i') s') = suggestions s'"
  using applySuggestion_removes_entry[OF assms(1-3)] applySuggestion_no_value[OF assms(4-6)]
  by simp

theorem applySuggestion_removes_unless_no_value_witness:
  "currentTextarea armed = Some (textarea ''fix my code please'')
   \<and> el_value (textarea ''fix my code please'') = Some ''fix my code please''
   \<and> 0 < length (suggestions armed)
   \<and> currentTextarea (run [Mutation ce_page, UserInput ''fix my code please'', Advance 500,
        Response (Some two_suggestions)] init) = Some (editable ''fix my code please'')
   \<and> el_value (editable ''fix my code please'') = None
   \<and> 0 < length (suggestions (run [Mutation ce_page, UserInput ''fix my code please'',
        Advance 500, Response (Some two_suggestions)] init))
   \<and> (\<exists>t. applySuggestion 0 armed = Inr t \<and> suggestions t = [sug_polite])
   \<and> applySuggestion 0 (run [Mutation ce_page, UserInput ''fix my code please'', Advance 500,
        Response (Some two_suggestions)] init) = Inl TypeError
   \<and> suggestions (run [Mutation ce_page, UserInput ''fix my code please'', Advance 500,
        Response (Some two_suggestions), Apply 0] init) = [sug_vague, sug_polite]"
proof -
  let ?c = "run [Mutation ce_page, UserInput ''fix my code please'', Advance 500,
        Response (Some two_suggestions)] init"
  have h1: "currentTextarea armed = Some (textarea ''fix my code please'')"
    by (simp add: armed_def)
  have h2: "el_value (textarea ''fix my code please'') = Some ''fix my code please''"
    by (simp add: textarea_def)
  have h3: "0 < length (suggestions armed)"
    by (simp add: armed_def)
  have h4: "currentTextarea ?c = Some (editable ''fix my code please'')"
    and h6: "0 < length (suggestions ?c)"
    and sc: "suggestions ?c = [sug_vague, sug_polite]"
    by (simp_all add: exec)
  have h5: "el_value (editable ''fix my code please'') = None"
    by (simp add: editable_def)
  have sa: "suggestions armed = [sug_vague, sug_polite]"
    by (simp add: armed_def)
  from applySuggestion_removes_unless_no_value[OF h1 h2 h3 h4 h5 h6]
  have "\<exists>t. applySuggestion 0 armed = Inr t \<and> suggestions t = [sug_polite]"
    and "applySuggestion 0 ?c = Inl TypeError"
    and "suggestions (step (Apply 0) ?c) = suggestions ?c"
    using sa by auto
  then show ?thesis using h1 h2 h3 h4 h5 h6 sc by simp
qed

text \<open>
  C8. On a monitored element with a string value, when the original text of the
  suggestion is not a substring of the value, applying the suggestion leaves the value
  (and the text content) as it was and still removes the suggestion. On a
  contenteditable element whose text no longer holds the original text, the handler
  throws: the text stays as it was, and so does the sequence, with the suggestion still
  in it.
\<close>

theorem absent_original_removed_unless_no_value:
  assumes "currentTextarea s = Some e" and "el_value e = Some v"
    and "i < length (suggestions s)"
    and "\<not> (\<exists>pre post. v = pre @ original (suggestions s ! i) @ post)"
  shows "(\<exists>s' e'. applySuggestion i s = Inr s' \<and> currentTextarea s' = Some e'
           \<and> el_value e' = Some v \<and> textContent e' = textContent e
           \<and> suggestions s' = take i (suggestions s) @ drop (Suc i) (suggestions s))
       \<and> map_option textContent (currentTextarea (run [Mutation ce_page,
            UserInput ''fix my code please'', Advance 500, Response (Some two_suggestions),
            UserInput ''write a parser''] init)) = Some ''write a parser''
       \<and> indexOf (original sug_vague) ''write a parser'' = None
       \<and> applySuggestion 0 (run [Mutation ce_page,
            UserInput ''fix my code please'', Advance 500, Response (Some two_suggestions),
            UserInput ''write a parser''] init) = Inl TypeError
       \<and> suggestions (run [Mutation ce_page,
            UserInput ''fix my code please'', Advance 500, Response (Some two_suggestions),
            UserInput ''write a parser'', Apply 0] init) = [sug_vague, sug_polite]
       \<and> map_option textContent (currentTextarea (run [Mutation ce_page,
            UserInput ''fix my code please'', Advance 500, Response (Some two_suggestions),
            UserInput ''write a parser'', Apply 0] init)) = Some ''write a parser''"
proof -
  have "indexOf (original sug_vague) ''write a parser'' = None"
    by (simp add: sug_vague_def)
  then show ?thesis
    using applySuggestion_original_absent[OF assms] by (simp add: exec)
qed

theorem absent_original_removed_unless_no_value_witness:
  "currentTextarea edited = Some (textarea ''write a parser'')
   \<and> el_value (textarea ''write a parser'') = Some ''write a parser''
   \<and> 0 < length (suggestions edited)
   \<and> \<not> (\<exists>pre post. ''write a parser'' = pre @ original (suggestions edited ! 0) @ post)
   \<and> (\<exists>s' e'. applySuggestion 0 edited = Inr s' \<and> currentTextarea s' = Some e'
           \<and> el_value e' = Some ''write a parser'' \<and> suggestions s' = [sug_polite])"
proof -
  have h1: "currentTextarea edited = Some (textarea ''write a parser'')"
    by (simp add: edited_def armed_def)
  have h2: "el_value (textarea ''write a parser'') = Some ''write a parser''"
    by (simp add: textarea_def)
  have h3: "0 < length (suggestions edited)"
    by (simp add: edited_def armed_def)
  have "indexOf (original (suggestions edited ! 0)) ''write a parser'' = None"
    by (simp add: edited_def armed_def sug_vague_def)
  then have h4: "\<not> (\<exists>pre post. ''write a parser'' = pre @ original (suggestions edited ! 0) @ post)"
    using indexOf_None_iff by blast
  have sa: "suggestions edited = [sug_vague, sug_polite]"
    by (simp add: edited_def armed_def)
  from absent_original_removed_unless_no_value[OF h1 h2 h3 h4]
  have "\<exists>s' e'. applySuggestion 0 edited = Inr s' \<and> currentTextarea s' = Some e'
           \<and> el_value e' = Some ''write a parser'' \<and> suggestions s' = [sug_polite]"
    using sa by auto
  then show ?thesis using h1 h2 h3 h4 by simp
qed

section \<open>Accepting the optimized text\<close>

text \<open>
  C1. \<open>acceptAllSuggestions\<close> never changes \<open>suggestions\<close>. After an analysis
  that returned two suggestions, Accept All sets the element's value to the optimized
  text and dispatches one input event, and both suggestions are still in the sequence.
\<close>

theorem accept_all_keeps_suggestions:
  "suggestions (acceptAllSuggestions s) = suggestions s
   \<and> map_option el_value (currentTextarea (run [Mutation page,
        UserInput ''fix my code please'', Advance 500, Response (Some two_suggestions),
        AcceptAll] init)) = Some (Some ''debug my code'')
   \<and> map_option input_events (currentTextarea (run [Mutation page,
        UserInput ''fix my code please'', Advance 500, Response (Some two_suggestions),
        AcceptAll] init)) = Some 1
   \<and> suggestions (run [Mutation page,
        UserInput ''fix my code please'', Advance 500, Response (Some two_suggestions),
        AcceptAll] init) = [sug_vague, sug_polite]"
proof -
  have "suggestions (acceptAllSuggestions s) = suggestions s"
  proof (cases "currentTextarea s")
    case None
    then show ?thesis by (simp add: acceptAllSuggestions_def)
  next
    case (Some e)
    show ?thesis
    proof (cases "optimizedPrompt s = []")
      case True
      then show ?thesis using Some by (simp add: acceptAllSuggestions_def)
    next
      case False
      then show ?thesis using acceptAllSuggestions_effect(2)[OF Some] by simp
    qed
  qed
  then show ?thesis by (simp add: exec)
qed

section \<open>Leaving the optimized state\<close>

text \<open>
  An analysis that returns no suggestions puts the button into the optimized state and
  sets no timer: 2 seconds later, and 100 seconds later, the button is still there.
\<close>

theorem optimized_after_analysis_stays:
  "button (run [Mutation page, UserInput ''fix my code please'', Advance 500,
                Response (Some no_suggestions)] init) = Optimized
   \<and> timers (run [Mutation page, UserInput ''fix my code please'', Advance 500,
                Response (Some no_suggestions)] init) = []
   \<and> button (run [Mutation page, UserInput ''fix my code please'', Advance 500,
                Response (Some no_suggestions), Advance 2000] init) = Optimized
   \<and> button (run [Mutation page, UserInput ''fix my code please'', Advance 500,
                Response (Some no_suggestions), Advance 100000] init) = Optimized"
  by (simp add: exec)

text \<open>
  After Accept All the button shows the optimized state for 499 ms only: at 500 ms the
  analysis that the synthetic input event set off puts it into the analyzing state, and
  at 2000 ms the reset puts it into the default state while that analysis is in flight
  and both suggestions are still in the sequence.
\<close>

lemma accept_all_timeline:
  "button (run [Mutation page, UserInput ''fix my code please'', Advance 500,
      Response (Some two_suggestions), AcceptAll, Advance 499] init) = Optimized
   \<and> button (run [Mutation page, UserInput ''fix my code please'', Advance 500,
      Response (Some two_suggestions), AcceptAll, Advance 500] init) = Analyzing
   \<and> button (run [Mutation page, UserInput ''fix my code please'', Advance 500,
      Response (Some two_suggestions), AcceptAll, Advance 1999] init) = Analyzing
   \<and> button (run [Mutation page, UserInput ''fix my code please'', Advance 500,
      Response (Some two_suggestions), AcceptAll, Advance 2000] init) = Default
   \<and> isAnalyzing (run [Mutation page, UserInput ''fix my code please'', Advance 500,
      Response (Some two_suggestions), AcceptAll, Advance 2000] init)
   \<and> suggestions (run [Mutation page, UserInput ''fix my code please'', Advance 500,
      Response (Some two_suggestions), AcceptAll, Advance 2000] init) = [sug_vague, sug_polite]"
  by (simp add: exec)

text \<open>
  C4, as the code has it. Accept All (with a monitored element and a non-empty
  optimized text, from any reachable state) puts the button into the optimized state
  and puts a reset at the end of the timer queue, due exactly 2000 ms later. The reset
  is still pending at any time before that and has run at 2000 ms, and then the button
  is in the default state. In between the button stays in the optimized state as long
  as no other timer falls due. An analysis result without suggestions puts the button
  into the optimized state and adds no timer that would take it back.
\<close>

theorem optimized_after_accept_all_reset_at_2000:
  assumes "s = run evs init" and "currentTextarea s = Some e" and "optimizedPrompt s \<noteq> []"
    and "d < 2000"
    and "d0 < 2000"
    and "\<forall>t \<in> set (butlast (timers (acceptAllSuggestions s))). now s + d0 < due t"
    and "outstanding s' \<noteq> []" and "r_suggestions r = []"
  shows "button (acceptAllSuggestions s) = Optimized
       \<and> task (last (timers (acceptAllSuggestions s))) = ResetButton
       \<and> due (last (timers (acceptAllSuggestions s))) = now s + 2000
       \<and> last (timers (acceptAllSuggestions s)) \<in> set (timers (advance d (acceptAllSuggestions s)))
       \<and> button (advance d0 (acceptAllSuggestions s)) = Optimized
       \<and> button (advance 2000 (acceptAllSuggestions s)) = Default
       \<and> last (timers (acceptAllSuggestions s))
            \<notin> set (timers (advance 2000 (acceptAllSuggestions s)))
       \<and> button (response (Some r) s') = Optimized
       \<and> timers (response (Some r) s') = timers s'"
proof -
  let ?a = "acceptAllSuggestions s"
  let ?R = "last (timers ?a)"
  have ok: "timers_ok s" using assms(1) reachable_ok(1) by simp
  note q = acceptAllSuggestions_queue[OF assms(2,3) ok]
  have oka: "timers_ok ?a" using ok by (rule timers_ok_acceptAllSuggestions)
  have n: "now ?a = now s" using acceptAllSuggestions_timers(2)[OF assms(2,3) ok] .
  have b: "button ?a = Optimized" using acceptAllSuggestions_effect(3)[OF assms(2,3)] .
  have Rmem: "?R \<in> set (timers ?a)" using q(1) by simp
  have pend: "?R \<in> set (timers (advance d ?a))"
    unfolding advance_def n
    using oka Rmem q(3,4) assms(4) by (intro reset_pending_before_due) simp_all
  have "\<forall>t \<in> set (timers ?a). now s + d0 < due t"
  proof
    fix t assume "t \<in> set (timers ?a)"
    then have "t \<in> set (butlast (timers ?a)) \<or> t = ?R"
      using q(5) by (metis Un_iff empty_iff empty_set set_ConsD set_append)
    then show "now s + d0 < due t" using assms(5,6) q(3) by auto
  qed
  then have "run_timers (now s + d0) ?a = ?a\<lparr> now := max (now ?a) (now s + d0) \<rparr>"
    by (rule run_timers_nothing_due)
  then have stay: "button (advance d0 ?a) = Optimized"
    by (simp add: advance_def n b)
  have reset: "button (advance 2000 ?a) = Default"
    unfolding advance_def n
    using oka q(2,3,4,5) by (intro reset_last_run_timers[where ts = "butlast (timers ?a)" and R = ?R])
  have gone: "?R \<notin> set (timers (advance 2000 ?a))"
    unfolding advance_def n
    using oka q(2,3,4,5) by (intro reset_gone_run_timers[where ts = "butlast (timers ?a)"])
  have "button (response (Some r) s') = Optimized \<and> timers (response (Some r) s') = timers s'"
    using assms(7,8)
    by (cases "outstanding s'")
       (simp_all add: response_def analyzeText_resume_def Let_def split: option.splits)
  then show ?thesis using b q(2,3) pend stay reset gone by simp
qed

theorem optimized_after_accept_all_reset_at_2000_witness:
  "currentTextarea (run [Mutation page, UserInput ''fix my code please'', Advance 500,
       Response (Some two_suggestions)] init) = Some (textarea ''fix my code please'')
   \<and> optimizedPrompt (run [Mutation page, UserInput ''fix my code please'', Advance 500,
       Response (Some two_suggestions)] init) \<noteq> []
   \<and> (1999::nat) < 2000 \<and> (499::nat) < 2000
   \<and> butlast (timers (acceptAllSuggestions (run [Mutation page,
        UserInput ''fix my code please'', Advance 500, Response (Some two_suggestions)] init)))
       = [\<lparr> tid = 1, due = 1000, task = Later ''debug my code'' \<rparr>]
   \<and> now (run [Mutation page, UserInput ''fix my code please'', Advance 500,
       Response (Some two_suggestions)] init) + 499 < 1000
   \<and> outstanding (run [Mutation page, UserInput ''fix my code please'', Advance 500] init) \<noteq> []
   \<and> r_suggestions no_suggestions = []
   \<and> last (timers (acceptAllSuggestions (run [Mutation page,
        UserInput ''fix my code please'', Advance 500, Response (Some two_suggestions)] init)))
       = \<lparr> tid = 2, due = 2500, task = ResetButton \<rparr>
   \<and> button (acceptAllSuggestions (run [Mutation page, UserInput ''fix my code please'',
        Advance 500, Response (Some two_suggestions)] init)) = Optimized
   \<and> button (advance 499 (acceptAllSuggestions (run [Mutation page,
        UserInput ''fix my code please'', Advance 500, Response (Some two_suggestions)] init)))
       = Optimized
   \<and> \<lparr> tid = 2, due = 2500, task = ResetButton \<rparr>
        \<in> set (timers (advance 1999 (acceptAllSuggestions (run [Mutation page,
        UserInput ''fix my code please'', Advance 500, Response (Some two_suggestions)] init))))
   \<and> button (advance 2000 (acceptAllSuggestions (run [Mutation page,
        UserInput ''fix my code please'', Advance 500, Response (Some two_suggestions)] init)))
       = Default
   \<and> button (response (Some no_suggestions) (run [Mutation page,
        UserInput ''fix my code please'', Advance 500] init)) = Optimized
   \<and> timers (response (Some no_suggestions) (run [Mutation page,
        UserInput ''fix my code please'', Advance 500] init)) = []"
proof -
  let ?s = "run [Mutation page, UserInput ''fix my code please'', Advance 500,
                 Response (Some two_suggestions)] init"
  let ?s' = "run [Mutation page, UserInput ''fix my code please'', Advance 500] init"
  have h2: "currentTextarea ?s = Some (textarea ''fix my code please'')"
    and h3: "optimizedPrompt ?s \<noteq> []"
    and h7: "outstanding ?s' \<noteq> []"
    and t0: "timers ?s' = []"
    and n: "now ?s + 499 < 1000"
    and bl: "butlast (timers (acceptAllSuggestions ?s))
               = [\<lparr> tid = 1, due = 1000, task = Later ''debug my code'' \<rparr>]"
    and la: "last (timers (acceptAllSuggestions ?s)) = \<lparr> tid = 2, due = 2500, task = ResetButton \<rparr>"
    by (simp_all add: exec)
  have h4: "(1999::nat) < 2000" and h5: "(499::nat) < 2000" by simp_all
  have h6: "\<forall>t \<in> set (butlast (timers (acceptAllSuggestions ?s))). now ?s + 499 < due t"
    unfolding bl using n by simp
  have h8: "r_suggestions no_suggestions = []" by (simp add: no_suggestions_def)
  from optimized_after_accept_all_reset_at_2000[OF refl h2 h3 h4 h5 h6 h7 h8]
  have "button (acceptAllSuggestions ?s) = Optimized"
    and "last (timers (acceptAllSuggestions ?s)) \<in> set (timers (advance 1999 (acceptAllSuggestions ?s)))"
    and "button (advance 499 (acceptAllSuggestions ?s)) = Optimized"
    and "button (advance 2000 (acceptAllSuggestions ?s)) = Default"
    and "button (response (Some no_suggestions) ?s') = Optimized"
    and "timers (response (Some no_suggestions) ?s') = timers ?s'"
    by blast+
  then show ?thesis
    using h2 h3 h4 h5 h7 h8 n bl la t0 by (simp only: simp_thms)
qed

section \<open>Mutations and the attachment of the monitored element\<close>

text \<open>
  The monitored element is detached and the observer finds nothing to replace it: the
  reference stays, and both handlers write to the detached element.
\<close>

theorem detached_element_is_mutated:
  "map_option attached (currentTextarea (run [Mutation page,
      UserInput ''fix my code please'', Advance 500, Response (Some two_suggestions),
      Detach, Mutation (\<lambda>sel. None)] init)) = Some False
   \<and> map_option el_value (currentTextarea (run [Mutation page,
      UserInput ''fix my code please'', Advance 500, Response (Some two_suggestions),
      Detach, Mutation (\<lambda>sel. None)] init)) = Some (Some ''fix my code please'')
   \<and> map_option el_value (currentTextarea (run [Mutation page,
      UserInput ''fix my code please'', Advance 500, Response (Some two_suggestions),
      Detach, Mutation (\<lambda>sel. None), Apply 0] init)) = Some (Some ''debug my code please'')
   \<and> map_option el_value (currentTextarea (run [Mutation page,
      UserInput ''fix my code please'', Advance 500, Response (Some two_suggestions),
      Detach, Mutation (\<lambda>sel. None), AcceptAll] init)) = Some (Some ''debug my code'')"
  by (simp add: exec)

text \<open>
  C9, as the code has it. Before a mutation the handlers check only that a reference
  is there: with none they change nothing; with one (and a valid index, or a non-empty
  optimized text) they write the element's value and dispatch the event, attached or
  not. Attachment is checked by the observer alone: it leaves an attached reference as
  it is even when a selector finds an element, replaces a detached or missing reference
  by the element found, and leaves a detached reference in place when nothing is found.
  The start-up discovery does not check attachment: it takes the element found even
  when an attached one is monitored.
\<close>

theorem mutation_checks_presence_only:
  assumes "currentTextarea s0 = None"
    and "currentTextarea s = Some e" and "el_value e = Some v"
    and "i < length (suggestions s)" and "optimizedPrompt s \<noteq> []"
    and "currentTextarea s1 = Some e1" and "\<not> attached e1"
    and "first_element q selectors = Some e2" and "first_element q' selectors = None"
    and "currentTextarea s2 = Some e3" and "attached e3"
  shows "applySuggestion i s0 = Inr s0 \<and> acceptAllSuggestions s0 = s0
       \<and> (\<exists>s'. applySuggestion i s = Inr s'
             \<and> currentTextarea s' = Some (e\<lparr> el_value := Some (js_replace v
                  (original (suggestions s ! i)) (suggested (suggestions s ! i))),
                  input_events := Suc (input_events e) \<rparr>))
       \<and> currentTextarea (acceptAllSuggestions s)
            = Some (e\<lparr> el_value := Some (optimizedPrompt s),
                       input_events := Suc (input_events e) \<rparr>)
       \<and> observer_callback q s2 = s2
       \<and> currentTextarea (observer_callback q s1) = Some (e2\<lparr> listeners := Suc (listeners e2) \<rparr>)
       \<and> currentTextarea (observer_callback q s0) = Some (e2\<lparr> listeners := Suc (listeners e2) \<rparr>)
       \<and> observer_callback q' s1 = s1
       \<and> currentTextarea (initializeMonitoring q s2) = Some (e2\<lparr> listeners := Suc (listeners e2) \<rparr>)"
proof -
  have "applySuggestion i s0 = Inr s0 \<and> acceptAllSuggestions s0 = s0"
    using assms(1) by (simp add: applySuggestion_def acceptAllSuggestions_def)
  moreover have "\<exists>s'. applySuggestion i s = Inr s'
             \<and> currentTextarea s' = Some (e\<lparr> el_value := Some (js_replace v
                  (original (suggestions s ! i)) (suggested (suggestions s ! i))),
                  input_events := Suc (input_events e) \<rparr>)"
    using applySuggestion_effect[OF assms(2,3,4)] by blast
  moreover note acceptAllSuggestions_effect(1)[OF assms(2,5)]
  moreover have "observer_callback q s2 = s2"
    using assms(10,11) by (simp add: observer_callback_def)
  moreover have "currentTextarea (observer_callback q s1) = Some (e2\<lparr> listeners := Suc (listeners e2) \<rparr>)"
    using assms(6,7,8) by (simp add: observer_callback_def findAndMonitorTextarea_def)
  moreover have "currentTextarea (observer_callback q s0) = Some (e2\<lparr> listeners := Suc (listeners e2) \<rparr>)"
    using assms(1,8) by (simp add: observer_callback_def findAndMonitorTextarea_def)
  moreover have "observer_callback q' s1 = s1"
    using assms(6,7,9) by (simp add: observer_callback_def findAndMonitorTextarea_def)
  moreover have "currentTextarea (initializeMonitoring q s2) = Some (e2\<lparr> listeners := Suc (listeners e2) \<rparr>)"
    using assms(8) by (simp add: initializeMonitoring_def findAndMonitorTextarea_def)
  ultimately show ?thesis by simp
qed

theorem mutation_checks_presence_only_witness:
  "currentTextarea init = None
   \<and> currentTextarea stale = Some ((textarea ''fix my code please'')\<lparr> attached := False \<rparr>)
   \<and> el_value ((textarea ''fix my code please'')\<lparr> attached := False \<rparr>) = Some ''fix my code please''
   \<and> 0 < length (suggestions stale) \<and> optimizedPrompt stale \<noteq> []
   \<and> \<not> attached ((textarea ''fix my code please'')\<lparr> attached := False \<rparr>)
   \<and> first_element page selectors = Some ((textarea ''fix my code please'')\<lparr> listeners := 0 \<rparr>)
   \<and> first_element (\<lambda>sel. None) selectors = None
   \<and> currentTextarea edited = Some (textarea ''write a parser'')
   \<and> attached (textarea ''write a parser'')
   \<and> applySuggestion 0 init = Inr init \<and> acceptAllSuggestions init = init
   \<and> (\<exists>s'. applySuggestion 0 stale = Inr s'
         \<and> map_option el_value (currentTextarea s') = Some (Some ''debug my code please'')
         \<and> map_option attached (currentTextarea s') = Some False)
   \<and> map_option el_value (currentTextarea (acceptAllSuggestions stale)) = Some (Some ''debug my code'')
   \<and> map_option attached (currentTextarea (acceptAllSuggestions stale)) = Some False
   \<and> observer_callback page edited = edited
   \<and> currentTextarea (observer_callback page stale) = Some (textarea ''fix my code please'')
   \<and> currentTextarea (observer_callback page init) = Some (textarea ''fix my code please'')
   \<and> observer_callback (\<lambda>sel. None) stale = stale
   \<and> currentTextarea (initializeMonitoring page edited) = Some (textarea ''fix my code please'')"
proof -
  let ?e = "(textarea ''fix my code please'')\<lparr> attached := False \<rparr>"
  have h1: "currentTextarea init = None" by (simp add: init_def)
  have h2: "currentTextarea stale = Some ?e" by (simp add: stale_def armed_def)
  have h3: "el_value ?e = Some ''fix my code please''" by (simp add: textarea_def)
  have h4: "0 < length (suggestions stale)" and h5: "optimizedPrompt stale \<noteq> []"
    by (simp_all add: stale_def armed_def)
  have h7: "\<not> attached ?e" by simp
  have h8: "first_element page selectors = Some ((textarea ''fix my code please'')\<lparr> listeners := 0 \<rparr>)"
    by (simp add: page_def selectors_def textarea_def)
  have h9: "first_element (\<lambda>sel. None) selectors = None"
    by (simp add: selectors_def)
  have h10: "currentTextarea edited = Some (textarea ''write a parser'')"
    by (simp add: edited_def armed_def)
  have h11: "attached (textarea ''write a parser'')" by (simp add: textarea_def)
  have v: "suggestions stale ! 0 = sug_vague" "optimizedPrompt stale = ''debug my code''"
    by (simp_all add: stale_def armed_def)
  have r: "js_replace ''fix my code please'' (original sug_vague) (suggested sug_vague)
             = ''debug my code please''"
    by (simp add: js_replace_def sug_vague_def)
  from mutation_checks_presence_only[OF h1 h2 h3 h4 h5 h2 h7 h8 h9 h10 h11]
  show ?thesis using h1 h2 h3 h4 h5 h7 h8 h9 h10 h11
    by (auto simp: v r textarea_def)
qed

section \<open>The debounced analyzer\<close>

text \<open>
  C6. From any state the script can reach with no call in flight, a burst of
  invocations, each less than 500 ms after the one before and the last one with a text
  of at least 10 characters, sends nothing until 500 ms have passed since the last
  invocation and then sends exactly one request, with the text of the last invocation.
\<close>

theorem debounce_burst_one_call:
  assumes "\<not> isAnalyzing (run evs init)"
    and "\<forall>(gap, t) \<in> set rest. gap < DEBOUNCE_DELAY"
    and "10 \<le> length (last (text # map snd rest))"
    and "d < DEBOUNCE_DELAY" and "DEBOUNCE_DELAY \<le> d'"
  shows "sent (advance d (burst rest (analyzeText text (run evs init)))) = sent (run evs init)
       \<and> sent (advance d' (burst rest (analyzeText text (run evs init))))
            = sent (run evs init) @ [last (text # map snd rest)]
       \<and> outstanding (advance d' (burst rest (analyzeText text (run evs init))))
            = [last (text # map snd rest)]"
proof -
  let ?s = "run evs init"
  let ?b = "burst rest (analyzeText text ?s)"
  have p0: "pending text (analyzeText text ?s)"
    using reachable_ok(1) by (rule pending_analyzeText)
  have same0: "sent (analyzeText text ?s) = sent ?s"
    "outstanding (analyzeText text ?s) = outstanding ?s"
    "isAnalyzing (analyzeText text ?s) = isAnalyzing ?s"
    using timers_only_analyzeText[of ?s "text"] by (simp_all add: timers_only_def)
  note b = burst_pending[OF p0 assms(2)]
  have pb: "pending (last (text # map snd rest)) ?b" using b by simp
  have idle: "\<not> isAnalyzing ?b" using b same0 assms(1) by simp
  have out0: "outstanding ?s = []"
    using reachable_ok(2)[of evs] assms(1) by (simp add: network_ok_def)
  have "sent (advance d ?b) = sent ?b"
    using pending_advance(2)[OF pb assms(4)] by (simp add: resets_only_def)
  moreover note pending_fires[OF pb assms(5) idle assms(3)]
  ultimately show ?thesis using b same0 out0 by simp
qed

theorem debounce_burst_one_call_witness:
  "\<not> isAnalyzing (run [Mutation page] init)
   \<and> (100::nat) < DEBOUNCE_DELAY
   \<and> 10 \<le> length ''second prompt text''
   \<and> (499::nat) < DEBOUNCE_DELAY \<and> DEBOUNCE_DELAY \<le> 500
   \<and> sent (advance 499 (burst [(100, ''second prompt text'')]
            (analyzeText ''first prompt text'' (run [Mutation page] init)))) = []
   \<and> sent (advance 500 (burst [(100, ''second prompt text'')]
            (analyzeText ''first prompt text'' (run [Mutation page] init))))
        = [''second prompt text'']"
proof -
  have h1: "\<not> isAnalyzing (run [Mutation page] init)" by (simp add: exec)
  have h2: "\<forall>(gap, t) \<in> set [(100::nat, ''second prompt text'')]. gap < DEBOUNCE_DELAY"
    by (simp add: DEBOUNCE_DELAY_def)
  have h3: "10 \<le> length (last (''first prompt text'' # map snd [(100::nat, ''second prompt text'')]))"
    by simp
  have h4: "(499::nat) < DEBOUNCE_DELAY" and h5: "DEBOUNCE_DELAY \<le> 500"
    by (simp_all add: DEBOUNCE_DELAY_def)
  have s0: "sent (run [Mutation page] init) = []" by (simp add: exec)
  from debounce_burst_one_call[OF h1 h2 h3 h4 h5] s0 h1 h4 h5 show ?thesis
    by (simp add: DEBOUNCE_DELAY_def)
qed

text \<open>
  C5. For a text shorter than 10 characters, neither the invocation of the debounced
  function nor the run of its timer sends a request or changes what the script shows,
  \<open>analyzePrompt\<close> sends nothing either, and from any reachable state no request
  results however long one waits.
\<close>

theorem short_text_is_ignored:
  assumes "length text < 10"
  shows "sent (analyzeText text s) = sent s \<and> outstanding (analyzeText text s) = outstanding s
       \<and> ui (analyzeText text s) = ui s
       \<and> sent (later text s) = sent s \<and> outstanding (later text s) = outstanding s
       \<and> ui (later text s) = ui s
       \<and> analyzePrompt text s = (Resolved None, s)
       \<and> sent (snd (analyzePrompt text s)) = sent s
       \<and> outstanding (snd (analyzePrompt text s)) = outstanding s
       \<and> sent (advance d (analyzeText text (run evs init))) = sent (run evs init)
       \<and> outstanding (advance d (analyzeText text (run evs init))) = outstanding (run evs init)"
proof -
  have a: "sent (analyzeText text s) = sent s \<and> outstanding (analyzeText text s) = outstanding s
       \<and> ui (analyzeText text s) = ui s" for s
    using timers_only_analyzeText[of s "text"] by (simp add: timers_only_def ui_def)
  have l: "sent (later text s) = sent s \<and> outstanding (later text s) = outstanding s
       \<and> ui (later text s) = ui s"
    using assms by (simp add: later_def analyzeText_body_def clearTimeout_def ui_def)
  have p: "analyzePrompt text s = (Resolved None, s)"
    using assms by (simp add: analyzePrompt_def)
  let ?a = "analyzeText text (run evs init)"
  have L: "laters ?a = [\<lparr> tid = next_id (run evs init), due = now (run evs init) + DEBOUNCE_DELAY,
                        task = Later text \<rparr>]"
    using later_timers_analyzeText[of "run evs init" "text", OF reachable_ok(1)]
    by (simp add: laters_def)
  have "\<forall>t \<in> set (timers ?a). \<forall>x. task t = Later x \<longrightarrow> length x < 10"
  proof (intro ballI allI impI)
    fix t x
    assume t: "t \<in> set (timers ?a)" "task t = Later x"
    then have "t \<in> set (laters ?a)" by (simp add: laters_def)
    then have "task t = Later text" using L by simp
    then show "length x < 10" using t(2) assms by simp
  qed
  from short_run_timers[OF this, of "now ?a + d"] a[of "run evs init"] l p a[of s]
  show ?thesis by (simp add: advance_def)
qed

theorem short_text_is_ignored_witness:
  "length ''hi there'' < 10
   \<and> sent (analyzeText ''hi there'' armed) = sent armed
   \<and> ui (analyzeText ''hi there'' armed) = ui armed
   \<and> sent (later ''hi there'' armed) = sent armed
   \<and> ui (later ''hi there'' armed) = ui armed
   \<and> sent (advance 500 (analyzeText ''hi there'' (run [Mutation page] init))) = []"
proof -
  have h: "length ''hi there'' < 10" by simp
  have s0: "sent (run [Mutation page] init) = []" by (simp add: exec)
  from short_text_is_ignored[OF h, of armed 500 "[Mutation page]"] h s0
  show ?thesis by simp
qed

text \<open>
  C10. With a text of exactly 10 characters on the monitored element, the input
  listener leads to a request 500 ms later (from a reachable state with no call in
  flight), while the focus listener and the click on the button (nothing to show)
  leave the state as it is.
\<close>

theorem ten_characters_input_only:
  assumes "length (element_text e) = 10"
    and "s = run evs init" and "\<not> isAnalyzing s"
    and "currentTextarea s = Some e" and "suggestions s = []" and "optimizedPrompt s = []"
  shows "sent (advance DEBOUNCE_DELAY (input_listener e s)) = sent s @ [element_text e]
       \<and> focus_listener e s = s \<and> user_focus s = s \<and> button_click s = s"
proof -
  have ok: "timers_ok s" using assms(2) reachable_ok(1) by simp
  have p: "pending (element_text e) (input_listener e s)"
    unfolding input_listener_def using ok by (rule pending_analyzeText)
  have same: "sent (input_listener e s) = sent s"
    "isAnalyzing (input_listener e s) = isAnalyzing s"
    using timers_only_analyzeText[of s "element_text e"]
    by (simp_all add: timers_only_def input_listener_def)
  have "sent (advance DEBOUNCE_DELAY (input_listener e s)) = sent (input_listener e s) @ [element_text e]"
    using pending_fires(1)[OF p order_refl] same(2) assms(1,3) by simp
  moreover have f: "focus_listener e s' = s'" for s'
    using assms(1) by (simp add: focus_listener_def Let_def)
  moreover have "user_focus s = s"
    using assms(4) f by (simp add: user_focus_def funpow_fixed)
  moreover have "button_click s = s"
    using assms(1,4,5,6) by (simp add: button_click_def Let_def)
  ultimately show ?thesis using same(1) by simp
qed

theorem ten_characters_input_only_witness:
  "length (element_text (textarea ''fix my bug'')) = 10
   \<and> \<not> isAnalyzing (run [Mutation page10] init)
   \<and> currentTextarea (run [Mutation page10] init) = Some (textarea ''fix my bug'')
   \<and> suggestions (run [Mutation page10] init) = []
   \<and> optimizedPrompt (run [Mutation page10] init) = []
   \<and> sent (advance DEBOUNCE_DELAY (input_listener (textarea ''fix my bug'')
              (run [Mutation page10] init))) = [''fix my bug'']
   \<and> user_focus (run [Mutation page10] init) = run [Mutation page10] init
   \<and> button_click (run [Mutation page10] init) = run [Mutation page10] init"
proof -
  let ?s = "run [Mutation page10] init"
  have h1: "length (element_text (textarea ''fix my bug'')) = 10"
    and t: "element_text (textarea ''fix my bug'') = ''fix my bug''"
    by (simp_all add: element_text_def textarea_def)
  have h3: "\<not> isAnalyzing ?s" and h4: "currentTextarea ?s = Some (textarea ''fix my bug'')"
    and h5: "suggestions ?s = []" and h6: "optimizedPrompt ?s = []" and s0: "sent ?s = []"
    by (simp_all add: exec page10_def)
  from ten_characters_input_only[OF h1 refl h3 h4 h5 h6] h1 h3 h4 h5 h6 s0
  show ?thesis by (simp add: t)
qed

text \<open>
  With a call in flight, a second invocation is lost: its timer runs into the guard
  \<open>isAnalyzing\<close> and its text is not sent then or later.
\<close>

theorem second_invocation_is_never_sent:
  "sent (run [Mutation page, UserInput ''first prompt text'', Advance 500,
              UserInput ''second prompt text'', Advance 500] init) = [''first prompt text'']
   \<and> outstanding (run [Mutation page, UserInput ''first prompt text'', Advance 500,
              UserInput ''second prompt text'', Advance 500] init) = [''first prompt text'']
   \<and> timers (run [Mutation page, UserInput ''first prompt text'', Advance 500,
              UserInput ''second prompt text'', Advance 500] init) = []
   \<and> sent (run [Mutation page, UserInput ''first prompt text'', Advance 500,
              UserInput ''second prompt text'', Advance 500,
              Response (Some no_suggestions), Advance 100000] init) = [''first prompt text'']
   \<and> outstanding (run [Mutation page, UserInput ''first prompt text'', Advance 500,
              UserInput ''second prompt text'', Advance 500,
              Response (Some no_suggestions), Advance 100000] init) = []
   \<and> timers (run [Mutation page, UserInput ''first prompt text'', Advance 500,
              UserInput ''second prompt text'', Advance 500,
              Response (Some no_suggestions), Advance 100000] init) = []"
  by (simp add: exec)

text \<open>
  C2, as the code has it. At most one request is outstanding in any state the script
  can reach. The guard is read when the debounce timer runs, not when the debounced
  function is invoked. An invocation made during a call in flight is dropped for good
  when that call is still in flight as its timer runs: its text is not sent then, no
  timer of the debounced function is left, and it is not sent after the call has
  settled either. When the call settles before the timer runs, the text is sent.
\<close>

theorem in_flight_guard_is_read_by_the_timer:
  assumes "isAnalyzing (run evs init)" and "DEBOUNCE_DELAY \<le> d"
    and "10 \<le> length text'" and "g < DEBOUNCE_DELAY" and "DEBOUNCE_DELAY \<le> g + d''"
  shows "length (outstanding (run evs' init)) \<le> 1
       \<and> sent (advance d (analyzeText text (run evs init))) = sent (run evs init)
       \<and> outstanding (advance d (analyzeText text (run evs init))) = outstanding (run evs init)
       \<and> laters (advance d (analyzeText text (run evs init))) = []
       \<and> sent (advance d' (response r (advance d (analyzeText text (run evs init)))))
            = sent (run evs init)
       \<and> sent (advance d'' (response r (advance g (analyzeText text' (run evs init)))))
            = sent (run evs init) @ [text']"
proof -
  let ?s = "run evs init"
  let ?a = "analyzeText text ?s"
  have "length (outstanding (run evs' init)) \<le> 1"
    using reachable_ok(2)[of evs'] by (simp add: network_ok_def split: if_splits)
  moreover have same: "outstanding ?a = outstanding ?s" "isAnalyzing ?a = isAnalyzing ?s"
    using timers_only_analyzeText[of ?s "text"] by (simp_all add: timers_only_def)
  have "isAnalyzing ?a" using same assms(1) by simp
  from busy_run_timers[OF this, of "now ?a + d"]
  have "outstanding (advance d ?a) = outstanding ?s" by (simp add: advance_def same)
  moreover note dropped_for_good(1,2)[OF reachable_ok(1)[of evs] reachable_ok(2)[of evs]
      assms(1,2), of "text"]
  moreover note dropped_for_good(3)[OF reachable_ok(1)[of evs] reachable_ok(2)[of evs]
      assms(1,2), of d' r "text"]
  moreover note settled_before_timer[OF reachable_ok(1)[of evs] reachable_ok(2)[of evs]
      assms(3,4,5), of r]
  ultimately show ?thesis by simp
qed

theorem in_flight_guard_is_read_by_the_timer_witness:
  "isAnalyzing (run [Mutation page, UserInput ''first prompt text'', Advance 500] init)
   \<and> DEBOUNCE_DELAY \<le> 500 \<and> 10 \<le> length ''second prompt text''
   \<and> (100::nat) < DEBOUNCE_DELAY \<and> DEBOUNCE_DELAY \<le> 100 + 400
   \<and> length (outstanding (run [Mutation page, UserInput ''first prompt text'', Advance 500] init)) \<le> 1
   \<and> sent (advance 500 (analyzeText ''second prompt text''
        (run [Mutation page, UserInput ''first prompt text'', Advance 500] init)))
       = [''first prompt text'']
   \<and> laters (advance 500 (analyzeText ''second prompt text''
        (run [Mutation page, UserInput ''first prompt text'', Advance 500] init))) = []
   \<and> sent (advance 100000 (response (Some no_suggestions) (advance 500
        (analyzeText ''second prompt text''
          (run [Mutation page, UserInput ''first prompt text'', Advance 500] init)))))
       = [''first prompt text'']
   \<and> sent (advance 400 (response (Some no_suggestions) (advance 100
        (analyzeText ''second prompt text''
          (run [Mutation page, UserInput ''first prompt text'', Advance 500] init)))))
       = [''first prompt text'', ''second prompt text'']"
proof -
  let ?evs = "[Mutation page, UserInput ''first prompt text'', Advance 500]"
  have h1: "isAnalyzing (run ?evs init)" and s0: "sent (run ?evs init) = [''first prompt text'']"
    by (simp_all add: exec)
  have h2: "DEBOUNCE_DELAY \<le> 500" and h4: "(100::nat) < DEBOUNCE_DELAY"
    and h5: "DEBOUNCE_DELAY \<le> 100 + 400"
    by (simp_all add: DEBOUNCE_DELAY_def)
  have h3: "10 \<le> length ''second prompt text''" by simp
  from in_flight_guard_is_read_by_the_timer[OF h1 h2 h3 h4 h5,
      of ?evs "''second prompt text''" 100000 "Some no_suggestions"]
    h1 h2 h3 h4 h5 s0
  show ?thesis by simp
qed

section \<open>The floating button\<close>

text \<open>
  A click with nothing to show and a long enough text on the monitored element sends
  nothing at once and nothing within 499 ms; the request goes out at 500 ms.
\<close>

theorem click_does_not_bypass_debounce:
  "suggestions (run [Mutation page] init) = []
   \<and> optimizedPrompt (run [Mutation page] init) = []
   \<and> map_option element_text (currentTextarea (run [Mutation page] init))
        = Some ''fix my code please''
   \<and> sent (step Click (run [Mutation page] init)) = []
   \<and> outstanding (step Click (run [Mutation page] init)) = []
   \<and> button (step Click (run [Mutation page] init)) = Default
   \<and> sent (run [Mutation page, Click, Advance 499] init) = []
   \<and> sent (run [Mutation page, Click, Advance 500] init) = [''fix my code please'']"
  by (simp add: exec)

text \<open>
  C3, as the code has it. Such a click calls the debounced function, as typing does,
  whether or not a call is in flight: nothing is sent and nothing shown changes at the
  click, and nothing is sent before 500 ms have passed. When the timer runs, the
  element's text is sent if no call is in flight then (none was at the click, or the
  one that was has settled), and the click is dropped if the call is still in flight.
\<close>

theorem click_schedules_debounced_analysis:
  assumes "s = run evs init"
    and "suggestions s = []" and "optimizedPrompt s = []"
    and "currentTextarea s = Some e" and "10 < length (element_text e)"
    and "d < DEBOUNCE_DELAY" and "DEBOUNCE_DELAY \<le> d'"
    and "g < DEBOUNCE_DELAY" and "DEBOUNCE_DELAY \<le> g + d''"
  shows "button_click s = analyzeText (element_text e) s
       \<and> sent (button_click s) = sent s \<and> ui (button_click s) = ui s
       \<and> sent (advance d (button_click s)) = sent s
       \<and> sent (advance d' (button_click s))
            = (if isAnalyzing s then sent s else sent s @ [element_text e])
       \<and> sent (advance d'' (response r (advance g (button_click s))))
            = sent s @ [element_text e]"
proof -
  have c: "button_click s = analyzeText (element_text e) s"
    using assms(2-5) by (auto simp: button_click_def Let_def)
  have ok: "timers_ok s" "network_ok s" using assms(1) reachable_ok by simp_all
  have p: "pending (element_text e) (button_click s)"
    unfolding c using ok(1) by (rule pending_analyzeText)
  have same: "sent (button_click s) = sent s" "isAnalyzing (button_click s) = isAnalyzing s"
    "ui (button_click s) = ui s"
    unfolding c using timers_only_analyzeText[of s "element_text e"]
    by (simp_all add: timers_only_def ui_def)
  have early: "sent (advance d (button_click s)) = sent (button_click s)"
    using pending_advance(2)[OF p assms(6)] by (simp add: resets_only_def)
  have len: "10 \<le> length (element_text e)" using assms(5) by simp
  have at: "sent (advance d' (button_click s))
            = (if isAnalyzing s then sent s else sent s @ [element_text e])"
  proof (cases "isAnalyzing s")
    case True
    then show ?thesis
      using dropped_for_good(1)[OF ok True assms(7), of "element_text e"] by (simp add: c)
  next
    case False
    then show ?thesis
      using pending_fires(1)[OF p assms(7)] same(1,2) len by simp
  qed
  have "sent (advance d'' (response r (advance g (button_click s)))) = sent s @ [element_text e]"
    unfolding c using settled_before_timer[OF ok len assms(8,9)] .
  then show ?thesis using c same early at by simp
qed

theorem click_schedules_debounced_analysis_witness:
  "suggestions (run [Mutation page] init) = []
   \<and> optimizedPrompt (run [Mutation page] init) = []
   \<and> currentTextarea (run [Mutation page] init) = Some (textarea ''fix my code please'')
   \<and> 10 < length (element_text (textarea ''fix my code please''))
   \<and> (499::nat) < DEBOUNCE_DELAY \<and> DEBOUNCE_DELAY \<le> 500
   \<and> (100::nat) < DEBOUNCE_DELAY \<and> DEBOUNCE_DELAY \<le> 100 + 400
   \<and> \<not> isAnalyzing (run [Mutation page] init)
   \<and> sent (button_click (run [Mutation page] init)) = []
   \<and> sent (advance 499 (button_click (run [Mutation page] init))) = []
   \<and> sent (advance 500 (button_click (run [Mutation page] init))) = [''fix my code please'']
   \<and> suggestions (run [Mutation page, UserInput ''first prompt text'', Advance 500] init) = []
   \<and> optimizedPrompt (run [Mutation page, UserInput ''first prompt text'', Advance 500] init) = []
   \<and> currentTextarea (run [Mutation page, UserInput ''first prompt text'', Advance 500] init)
        = Some (textarea ''first prompt text'')
   \<and> 10 < length (element_text (textarea ''first prompt text''))
   \<and> isAnalyzing (run [Mutation page, UserInput ''first prompt text'', Advance 500] init)
   \<and> sent (advance 500 (button_click
        (run [Mutation page, UserInput ''first prompt text'', Advance 500] init)))
       = [''first prompt text'']
   \<and> sent (advance 400 (response None (advance 100 (button_click
        (run [Mutation page, UserInput ''first prompt text'', Advance 500] init)))))
       = [''first prompt text'', ''first prompt text'']"
proof -
  let ?s = "run [Mutation page] init"
  let ?b = "run [Mutation page, UserInput ''first prompt text'', Advance 500] init"
  have h2: "suggestions ?s = []" and h3: "optimizedPrompt ?s = []"
    and h4: "currentTextarea ?s = Some (textarea ''fix my code please'')"
    and idle: "\<not> isAnalyzing ?s" and s0: "sent ?s = []"
    by (simp_all add: exec)
  have b2: "suggestions ?b = []" and b3: "optimizedPrompt ?b = []"
    and b4: "currentTextarea ?b = Some (textarea ''first prompt text'')"
    and busy: "isAnalyzing ?b" and sb: "sent ?b = [''first prompt text'']"
    by (simp_all add: exec)
  have h5: "10 < length (element_text (textarea ''fix my code please''))"
    and t: "element_text (textarea ''fix my code please'') = ''fix my code please''"
    and b5: "10 < length (element_text (textarea ''first prompt text''))"
    and tb: "element_text (textarea ''first prompt text'') = ''first prompt text''"
    by (simp_all add: element_text_def textarea_def)
  have h6: "(499::nat) < DEBOUNCE_DELAY" and h7: "DEBOUNCE_DELAY \<le> 500"
    and h8: "(100::nat) < DEBOUNCE_DELAY" and h9: "DEBOUNCE_DELAY \<le> 100 + 400"
    by (simp_all add: DEBOUNCE_DELAY_def)
  from click_schedules_debounced_analysis[OF refl h2 h3 h4 h5 h6 h7 h8 h9, of None]
  have "sent (button_click ?s) = sent ?s"
    and "sent (advance 499 (button_click ?s)) = sent ?s"
    and "sent (advance 500 (button_click ?s))
           = (if isAnalyzing ?s then sent ?s
              else sent ?s @ [element_text (textarea ''fix my code please'')])"
    by blast+
  then have i: "sent (button_click ?s) = []" "sent (advance 499 (button_click ?s)) = []"
    "sent (advance 500 (button_click ?s)) = [''fix my code please'']"
    by (simp_all only: s0 t idle if_False append_Nil)
  from click_schedules_debounced_analysis[OF refl b2 b3 b4 b5 h6 h7 h8 h9, of None]
  have "sent (advance 500 (button_click ?b))
           = (if isAnalyzing ?b then sent ?b
              else sent ?b @ [element_text (textarea ''first prompt text'')])"
    and "sent (advance 400 (response None (advance 100 (button_click ?b))))
           = sent ?b @ [element_text (textarea ''first prompt text'')]"
    by blast+
  then have j: "sent (advance 500 (button_click ?b)) = [''first prompt text'']"
    "sent (advance 400 (response None (advance 100 (button_click ?b))))
       = [''first prompt text'', ''first prompt text'']"
    by (simp_all only: sb tb busy if_True append.simps)
  show ?thesis
    using h2 h3 h4 h5 h6 h7 h8 h9 idle i b2 b3 b4 b5 busy j by (intro conjI)
qed

end
